theory Spec2Isabelle
  imports Complex_Main "HOL-Library.Log_Nat"
begin

section \<open>The store (db.py)\<close>

text \<open>
  The four tables of \<^verbatim>\<open>init_db\<close>. A nullable column is an \<open>option\<close> (\<open>None\<close> is SQL
  NULL). The tables \<^verbatim>\<open>selectors\<close> and \<^verbatim>\<open>simulators\<close> are the lists of their rows in rowid
  order, because the code deletes by domain, counts updated rows and selects with
  \<^verbatim>\<open>LIMIT 1\<close>; \<^verbatim>\<open>runs\<close> and \<^verbatim>\<open>metrics\<close> are only ever addressed by their primary key and
  are maps from that key. Columns that no operation writes after the row is inserted
  (\<^verbatim>\<open>selectors.id\<close>, \<^verbatim>\<open>selectors.created_at\<close>, \<^verbatim>\<open>simulators.port\<close>) are left out.
  Timestamps are the strings the callers compute (\<^verbatim>\<open>datetime.utcnow().isoformat() + "Z"\<close>);
  every operation takes its \<open>now\<close> as an argument.
\<close>

type_synonym attrs = "(string \<times> string) list"

record selector_row =
  domain :: string
  action :: string
  selector :: string
  success_count :: int
  fail_count :: int
  attributes :: "attrs option"
  last_used :: "string option"
  last_failed :: "string option"

record simulator =
  udid :: string
  name :: string
  device_type :: string
  screen_size :: string
  pool :: string
  state :: string
  current_task :: "string option"
  last_activity :: string

record run =
  workflow :: string
  simulator_udid :: "string option"
  status :: string
  start_time :: string
  end_time :: "string option"
  total_steps :: int
  current_step :: int
  run_dir :: string

record metrics_row =
  captures_light :: int
  captures_jpeg :: int
  captures_pdf :: int
  bytes_light :: int
  bytes_jpeg :: int
  bytes_pdf :: int
  bytes_total :: int
  tokens_estimated :: int
  cost_usd :: rat
  actions_clicks :: int
  actions_types :: int
  actions_navigations :: int
  actions_scrolls :: int
  selector_hits :: int
  selector_misses :: int
  errors :: int

record store =
  selectors :: "selector_row list"
  simulators :: "simulator list"
  runs :: "string \<rightharpoonup> run"
  metrics :: "string \<rightharpoonup> metrics_row"

text \<open>What a call raises: \<^verbatim>\<open>sqlite3.IntegrityError\<close> on a primary-key or foreign-key
  violation. \<^verbatim>\<open>transaction\<close> rolls back and re-raises, so the store is then unchanged.\<close>

datatype error = IntegrityError

text \<open>Python's truth value of an optional string: \<^verbatim>\<open>None\<close> and \<^verbatim>\<open>""\<close> are false.\<close>

fun truthy :: "string option \<Rightarrow> bool" where
  "truthy None = False"
| "truthy (Some []) = False"
| "truthy (Some (c # cs)) = True"

text \<open>\<^verbatim>\<open>s.startswith(p)\<close> and \<^verbatim>\<open>sub in s\<close> on strings.\<close>

definition startswith :: "string \<Rightarrow> string \<Rightarrow> bool" where
  "startswith s p = (take (length p) s = p)"

fun contains :: "string \<Rightarrow> string \<Rightarrow> bool" where
  "contains [] sub = (sub = [])"
| "contains (c # cs) sub = (startswith (c # cs) sub \<or> contains cs sub)"

section \<open>Selector cache (selectors.py)\<close>

text \<open>
  \<^verbatim>\<open>urlparse(url).netloc\<close> of the standard library, for a URL that starts with
  \<^verbatim>\<open>http://\<close> or \<^verbatim>\<open>https://\<close>: the library first deletes every TAB, LF and CR from the
  URL; the network location is then the text after the two slashes up to the first
  \<^verbatim>\<open>/\<close>, \<^verbatim>\<open>?\<close> or \<^verbatim>\<open>#\<close>. The library goes on to validate a location that holds a bracket
  or a non-ASCII character and raises \<^verbatim>\<open>ValueError\<close> when it rejects it (unbalanced
  brackets, a bracketed host that is no IPv6 address); that validation is library code
  outside the repository and is not modelled, so this function is the library's only on
  URLs whose network location consists of \<open>netloc_char\<close>s. What is proved about the
  derived key itself is stated for such locations.
\<close>

definition urlparse_netloc :: "string \<Rightarrow> string" where
  "urlparse_netloc url =
     takeWhile (\<lambda>c. c \<noteq> CHR ''/'' \<and> c \<noteq> CHR ''?'' \<and> c \<noteq> CHR ''#'')
       (drop 2 (drop 1 (dropWhile (\<lambda>c. c \<noteq> CHR '':'')
          (filter (\<lambda>c. c \<noteq> CHR 0x09 \<and> c \<noteq> CHR 0x0A \<and> c \<noteq> CHR 0x0D) url))))"

text \<open>A character of a network location that the library neither deletes, nor splits at,
  nor validates: ASCII, and none of \<^verbatim>\<open>/ ? # [ ]\<close>, TAB, LF, CR.\<close>

definition netloc_char :: "char \<Rightarrow> bool" where
  "netloc_char c =
     (\<not> digit7 c \<and> c \<noteq> CHR ''/'' \<and> c \<noteq> CHR ''?'' \<and> c \<noteq> CHR ''#''
      \<and> c \<noteq> CHR ''['' \<and> c \<noteq> CHR '']''
      \<and> c \<noteq> CHR 0x09 \<and> c \<noteq> CHR 0x0A \<and> c \<noteq> CHR 0x0D)"

definition extract_domain :: "string \<Rightarrow> string" where
  "extract_domain url =
     (if \<not> (startswith url ''http://'' \<or> startswith url ''https://'') then url
      else let domain = urlparse_netloc url
           in if startswith domain ''www.'' then drop 4 domain else domain)"

text \<open>\<^verbatim>\<open>WHERE domain = ? AND action = ?\<close>\<close>

definition sel_key :: "string \<Rightarrow> string \<Rightarrow> selector_row \<Rightarrow> bool" where
  "sel_key d a r = (domain r = d \<and> action r = a)"

text \<open>
  \<^verbatim>\<open>learn\<close>: \<open>attributes\<close> is the optional dict; \<^verbatim>\<open>json.dumps\<close> and \<^verbatim>\<open>json.loads\<close> are
  inverse to each other, so the column holds the dict itself. An empty dict is false in
  Python and is stored as NULL. The result is the dict the call returns.
\<close>

definition attrs_json :: "attrs option \<Rightarrow> attrs option" where
  "attrs_json a = (case a of None \<Rightarrow> None | Some [] \<Rightarrow> None | Some (x # xs) \<Rightarrow> Some (x # xs))"

definition learn ::
  "string \<Rightarrow> string \<Rightarrow> string \<Rightarrow> attrs option \<Rightarrow> string \<Rightarrow> store \<Rightarrow>
   (bool \<times> string \<times> string \<times> string) \<times> store" where
  "learn act sel url attributes' now s =
     (let d = extract_domain url;
          aj = attrs_json attributes';
          rows = selectors s;
          rowcount = length (filter (sel_key d act) rows);
          rows1 = map (\<lambda>r. if sel_key d act r
                     then r\<lparr>selector := sel, success_count := success_count r + 1,
                            last_used := Some now,
                            attributes := (case aj of Some j \<Rightarrow> Some j | None \<Rightarrow> attributes r)\<rparr>
                     else r) rows;
          rows2 = (if rowcount = 0
                   then rows1 @ [\<lparr>domain = d, action = act, selector = sel, success_count = 1,
                                  fail_count = 0, attributes = aj, last_used = Some now,
                                  last_failed = None\<rparr>]
                   else rows1)
      in ((True, d, act, sel), s\<lparr>selectors := rows2\<rparr>))"

record recall_result =
  rc_selector :: string
  rc_success_count :: int
  rc_fail_count :: int
  rc_reliability :: rat
  rc_attributes :: attrs

text \<open>\<^verbatim>\<open>recall\<close>: Python's \<^verbatim>\<open>/\<close> on two ints is true division; the quotient is kept exact
  here (a rational), where Python holds the nearest double.\<close>

definition recall :: "string \<Rightarrow> string \<Rightarrow> store \<Rightarrow> recall_result option" where
  "recall act url s =
     (let d = extract_domain url
      in case find (sel_key d act) (selectors s) of
           Some row \<Rightarrow>
             Some \<lparr>rc_selector = selector row,
                   rc_success_count = success_count row,
                   rc_fail_count = fail_count row,
                   rc_reliability =
                     of_int (success_count row) / of_int (max 1 (success_count row + fail_count row)),
                   rc_attributes = (case attributes row of Some a \<Rightarrow> a | None \<Rightarrow> [])\<rparr>
         | None \<Rightarrow> None)"

definition fail ::
  "string \<Rightarrow> string \<Rightarrow> string \<Rightarrow> string \<Rightarrow> store \<Rightarrow> (bool \<times> string \<times> string) \<times> store" where
  "fail act sel url now s =
     (let d = extract_domain url
      in ((True, d, act),
          s\<lparr>selectors :=
              map (\<lambda>r. if sel_key d act r \<and> selector r = sel
                        then r\<lparr>fail_count := fail_count r + 1, last_failed := Some now\<rparr>
                        else r) (selectors s)\<rparr>))"

text \<open>\<^verbatim>\<open>clear\<close>: \<^verbatim>\<open>if domain:\<close> is false for \<^verbatim>\<open>None\<close> and for the empty string; the result
  is \<^verbatim>\<open>cursor.rowcount\<close>, the number of rows deleted.\<close>

definition clear :: "string option \<Rightarrow> store \<Rightarrow> nat \<times> store" where
  "clear dom' s =
     (case dom' of
        Some (c # cs) \<Rightarrow>
          (length (filter (\<lambda>r. domain r = c # cs) (selectors s)),
           s\<lparr>selectors := filter (\<lambda>r. domain r \<noteq> c # cs) (selectors s)\<rparr>)
      | _ \<Rightarrow> (length (selectors s), s\<lparr>selectors := []\<rparr>))"

section \<open>Simulator pool (simulators.py)\<close>

definition get_screen_size :: "string \<Rightarrow> string" where
  "get_screen_size nm =
     (if contains nm ''iPad'' then
        (if contains nm ''Pro 13'' \<or> contains nm ''Air 13'' then ''1032x1376''
         else if contains nm ''Pro 11'' \<or> contains nm ''Air 11'' then ''834x1194''
         else ''820x1180'')
      else if contains nm ''Pro Max'' then ''430x932''
      else if contains nm ''Pro'' then ''393x852''
      else if contains nm ''Air'' then ''320x693''
      else ''393x852'')"

definition get_device_type :: "string \<Rightarrow> string" where
  "get_device_type nm = (if contains nm ''iPad'' then ''iPad'' else ''iPhone'')"

text \<open>
  The external inventory: what \<^verbatim>\<open>json.loads\<close> of the \<^verbatim>\<open>simctl\<close> output holds under
  \<^verbatim>\<open>"devices"\<close>, a list of runtimes, each with its devices. A device has the three keys the
  code reads. Output that does not parse, or a device without these keys, makes the call
  raise before it writes; such output is not modelled.
\<close>

record device =
  dev_udid :: string
  dev_name :: string
  dev_state :: string

type_synonym inventory = "(string \<times> device list) list"

text \<open>
  The body of the loop of \<^verbatim>\<open>refresh\<close> for one device is two statements. The first is the
  \<^verbatim>\<open>SELECT current_task\<close> with the Python code around it: the state to write is \<open>busy\<close> when
  the row read back has a true \<^verbatim>\<open>current_task\<close>, else \<open>available\<close> or \<open>offline\<close> as the
  listing says.
\<close>

definition python_state :: "device \<Rightarrow> simulator list \<Rightarrow> string" where
  "python_state dev sims =
     (let st0 = (if dev_state dev = ''Booted'' then ''available'' else ''offline'')
      in case find (\<lambda>r. udid r = dev_udid dev) sims of
           Some r \<Rightarrow> if truthy (current_task r) then ''busy'' else st0
         | None \<Rightarrow> st0)"

text \<open>
  The second is the upsert, given the state \<open>st\<close> that Python passes: a new row gets it; the
  conflict branch sets \<open>busy\<close> when \<^verbatim>\<open>current_task IS NOT NULL\<close> and \<open>st\<close> otherwise.
\<close>

definition upsert_statement ::
  "string \<Rightarrow> device \<Rightarrow> string \<Rightarrow> simulator list \<Rightarrow> simulator list" where
  "upsert_statement now dev st sims =
     (let u = dev_udid dev;
          nm = dev_name dev;
          dt = get_device_type nm;
          sz = get_screen_size nm;
          pl = dt @ ''-'' @ sz
      in case find (\<lambda>r. udid r = u) sims of
           None \<Rightarrow>
             sims @ [\<lparr>udid = u, name = nm, device_type = dt, screen_size = sz, pool = pl,
                      state = st, current_task = None, last_activity = now\<rparr>]
         | Some _ \<Rightarrow>
             map (\<lambda>r. if udid r = u
                       then r\<lparr>name := nm, device_type := dt, screen_size := sz, pool := pl,
                              state := (if current_task r \<noteq> None then ''busy'' else st),
                              last_activity := now\<rparr>
                       else r) sims)"

text \<open>One pass of the loop body with nothing in between: both statements on one table.\<close>

definition upsert_device :: "string \<Rightarrow> device \<Rightarrow> simulator list \<Rightarrow> simulator list" where
  "upsert_device now dev sims = upsert_statement now dev (python_state dev sims) sims"

text \<open>The loop state of \<^verbatim>\<open>refresh\<close>: the table, \<^verbatim>\<open>count\<close> and the dict \<^verbatim>\<open>pools\<close>.\<close>

type_synonym refresh_acc = "simulator list \<times> nat \<times> (string \<rightharpoonup> nat)"

definition refresh_device :: "string \<Rightarrow> device \<Rightarrow> refresh_acc \<Rightarrow> refresh_acc" where
  "refresh_device now dev acc =
     (case acc of (sims, count, pools) \<Rightarrow>
        (let pl = get_device_type (dev_name dev) @ ''-'' @ get_screen_size (dev_name dev);
             n = (case pools pl of None \<Rightarrow> 0 | Some k \<Rightarrow> k)
         in (upsert_device now dev sims, count + 1, pools(pl \<mapsto> n + 1))))"

fun refresh_devices :: "string \<Rightarrow> device list \<Rightarrow> refresh_acc \<Rightarrow> refresh_acc" where
  "refresh_devices now [] acc = acc"
| "refresh_devices now (dev # devs) acc = refresh_devices now devs (refresh_device now dev acc)"

fun refresh_runtimes :: "string \<Rightarrow> inventory \<Rightarrow> refresh_acc \<Rightarrow> refresh_acc" where
  "refresh_runtimes now [] acc = acc"
| "refresh_runtimes now ((runtime, devs) # rest) acc =
     refresh_runtimes now rest (refresh_devices now devs acc)"

definition refresh :: "inventory \<Rightarrow> string \<Rightarrow> store \<Rightarrow> (nat \<times> (string \<rightharpoonup> nat)) \<times> store" where
  "refresh data now s =
     (case refresh_runtimes now data (simulators s, 0, Map.empty) of
        (sims, count, pools) \<Rightarrow> ((count, pools), s\<lparr>simulators := sims\<rparr>))"

text \<open>
  \<^verbatim>\<open>acquire\<close> is two statements. The \<^verbatim>\<open>SELECT ... LIMIT 1\<close> has no \<^verbatim>\<open>ORDER BY\<close>; the model
  returns the first matching row in table order. The \<^verbatim>\<open>UPDATE\<close> is keyed by the udid alone.
\<close>

definition acquire_select :: "string \<Rightarrow> store \<Rightarrow> string option" where
  "acquire_select pl s =
     map_option udid (find (\<lambda>r. pool r = pl \<and> state r = ''available'') (simulators s))"

definition acquire_update :: "string \<Rightarrow> string \<Rightarrow> string \<Rightarrow> store \<Rightarrow> store" where
  "acquire_update task_id now u s =
     s\<lparr>simulators :=
         map (\<lambda>r. if udid r = u
                   then r\<lparr>state := ''busy'', current_task := Some task_id, last_activity := now\<rparr>
                   else r) (simulators s)\<rparr>"

definition acquire :: "string \<Rightarrow> string \<Rightarrow> string \<Rightarrow> store \<Rightarrow> string option \<times> store" where
  "acquire pl task_id now s =
     (case acquire_select pl s of
        None \<Rightarrow> (None, s)
      | Some u \<Rightarrow> (Some u, acquire_update task_id now u s))"

text \<open>\<^verbatim>\<open>release\<close> asks the inventory first: \<open>available\<close> when some device with this udid is
  \<^verbatim>\<open>Booted\<close>, else \<open>offline\<close>.\<close>

definition release :: "string \<Rightarrow> inventory \<Rightarrow> string \<Rightarrow> store \<Rightarrow> (string \<times> string) \<times> store" where
  "release u data now s =
     (let new_state =
            (if list_ex (\<lambda>dev. dev_udid dev = u \<and> dev_state dev = ''Booted'') (concat (map snd data))
             then ''available'' else ''offline'')
      in ((u, new_state),
          s\<lparr>simulators :=
              map (\<lambda>r. if udid r = u
                        then r\<lparr>state := new_state, current_task := None, last_activity := now\<rparr>
                        else r) (simulators s)\<rparr>))"

section \<open>Runs and metrics (runs.py)\<close>

definition zero_metrics :: metrics_row where
  "zero_metrics =
     \<lparr>captures_light = 0, captures_jpeg = 0, captures_pdf = 0,
      bytes_light = 0, bytes_jpeg = 0, bytes_pdf = 0, bytes_total = 0,
      tokens_estimated = 0, cost_usd = 0,
      actions_clicks = 0, actions_types = 0, actions_navigations = 0, actions_scrolls = 0,
      selector_hits = 0, selector_misses = 0, errors = 0\<rparr>"

text \<open>
  \<^verbatim>\<open>start\<close>. \<open>rdir\<close> is \<^verbatim>\<open>str(RUNS_DIR / run_id)\<close>, which the filesystem side provides. The
  first \<^verbatim>\<open>INSERT\<close> fails on an existing \<^verbatim>\<open>runs.id\<close> and, with foreign keys on, on a
  non-NULL \<^verbatim>\<open>simulator_udid\<close> that names no simulator; the second fails on an existing
  \<^verbatim>\<open>metrics.run_id\<close>. The simulator is marked busy under \<^verbatim>\<open>if simulator_udid:\<close>.
\<close>

definition start ::
  "string \<Rightarrow> string \<Rightarrow> string option \<Rightarrow> string \<Rightarrow> string \<Rightarrow> store \<Rightarrow>
   error + ((string \<times> string \<times> string) \<times> store)" where
  "start run_id wflow sim_udid now rdir s =
     (if runs s run_id \<noteq> None then Inl IntegrityError
      else if (case sim_udid of
                 Some u \<Rightarrow> \<not> list_ex (\<lambda>r. udid r = u) (simulators s)
               | None \<Rightarrow> False) then Inl IntegrityError
      else if metrics s run_id \<noteq> None then Inl IntegrityError
      else Inr ((run_id, rdir, ''running''),
             s\<lparr>runs := (runs s)(run_id \<mapsto>
                    \<lparr>workflow = wflow, simulator_udid = sim_udid, status = ''running'',
                     start_time = now, end_time = None, total_steps = 0, current_step = 0,
                     run_dir = rdir\<rparr>),
               metrics := (metrics s)(run_id \<mapsto> zero_metrics),
               simulators :=
                 (case sim_udid of
                    Some (c # cs) \<Rightarrow>
                      map (\<lambda>r. if udid r = c # cs
                                then r\<lparr>state := ''busy'', current_task := Some run_id\<rparr>
                                else r) (simulators s)
                  | _ \<Rightarrow> simulators s)\<rparr>))"

text \<open>\<^verbatim>\<open>complete\<close>: the simulator read from the run row is released under \<^verbatim>\<open>if sim_udid:\<close>.\<close>

definition complete ::
  "string \<Rightarrow> string \<Rightarrow> int \<Rightarrow> string \<Rightarrow> store \<Rightarrow> (string \<times> string) \<times> store" where
  "complete run_id st steps now s =
     (let sim_udid = (case runs s run_id of Some row \<Rightarrow> simulator_udid row | None \<Rightarrow> None);
          runs1 = (case runs s run_id of
                     Some row \<Rightarrow>
                       (runs s)(run_id \<mapsto> row\<lparr>status := st, end_time := Some now, total_steps := steps\<rparr>)
                   | None \<Rightarrow> runs s);
          sims1 = (case sim_udid of
                     Some (c # cs) \<Rightarrow>
                       map (\<lambda>r. if udid r = c # cs
                                 then r\<lparr>state := ''available'', current_task := None\<rparr>
                                 else r) (simulators s)
                   | _ \<Rightarrow> simulators s)
      in ((run_id, st), s\<lparr>runs := runs1, simulators := sims1\<rparr>))"

text \<open>\<^verbatim>\<open>progress\<close>: \<^verbatim>\<open>if total_steps:\<close> is false for \<^verbatim>\<open>None\<close> and for 0.\<close>

definition progress ::
  "string \<Rightarrow> int \<Rightarrow> int option \<Rightarrow> store \<Rightarrow> (string \<times> int) \<times> store" where
  "progress run_id step steps s =
     ((run_id, step),
      s\<lparr>runs :=
          (case runs s run_id of
             None \<Rightarrow> runs s
           | Some row \<Rightarrow>
               (runs s)(run_id \<mapsto>
                  (if steps \<noteq> None \<and> steps \<noteq> Some 0
                   then row\<lparr>current_step := step, total_steps := (case steps of Some t \<Rightarrow> t | None \<Rightarrow> 0)\<rparr>
                   else row\<lparr>current_step := step\<rparr>)))\<rparr>)"

text \<open>
  The capture modes and action types are the closed sets the command line admits; each
  names the columns \<^verbatim>\<open>captures_<mode>\<close>, \<^verbatim>\<open>bytes_<mode>\<close> and \<^verbatim>\<open>actions_<type>s\<close> that the
  statement text is assembled from.
\<close>

datatype capture_mode = Light | Jpeg | Pdf

datatype action_type = Click | Type | Navigation | Scroll

text \<open>\<^verbatim>\<open>CAST(x AS INTEGER)\<close> of a REAL truncates toward zero.\<close>

definition cast_integer :: "rat \<Rightarrow> int" where
  "cast_integer x = (if 0 \<le> x then \<lfloor>x\<rfloor> else \<lceil>x\<rceil>)"

text \<open>
  A REAL of SQLite is an IEEE 754 double. A double is a rational number, and \<open>to_double\<close>
  is the rounding that every REAL operation ends with: to the nearest number with a 53-bit
  significand, a tie going to the even significand. \<open>exponent x\<close> is the binary exponent
  of \<open>x \<noteq> 0\<close>, the \<open>e\<close> with \<open>2\<^sup>e \<le> \<bar>x\<bar> < 2\<^sup>e\<^sup>+\<^sup>1\<close>. Overflow to infinity and subnormal
  numbers are left out: no formula of this program reaches them on 64-bit operands.
\<close>

definition exponent :: "rat \<Rightarrow> int" where
  "exponent x =
     (case quotient_of \<bar>x\<bar> of
        (a, b) \<Rightarrow> let d = bitlen a - bitlen b in if 2 powi d \<le> \<bar>x\<bar> then d else d - 1)"

definition round_half_even :: "rat \<Rightarrow> int" where
  "round_half_even q =
     (let f = \<lfloor>q\<rfloor>; r = q - of_int f
      in if r < 1 / 2 then f else if 1 / 2 < r then f + 1 else if even f then f else f + 1)"

definition to_double :: "rat \<Rightarrow> rat" where
  "to_double x =
     (if x = 0 then 0
      else let e = exponent x - 52 in of_int (round_half_even (x / 2 powi e)) * 2 powi e)"

text \<open>
  \<^verbatim>\<open>add_capture\<close>: every right-hand side of the \<^verbatim>\<open>SET\<close> reads the row as it was before the
  statement. The sum \<^verbatim>\<open>bytes_total + ?\<close> is an INTEGER; the product by \<^verbatim>\<open>0.25\<close> converts it to
  a REAL, and the conversion, the two products and the quotient each round to a double.
  The integers are unbounded here, where SQLite holds 64-bit integers: the driver refuses
  to bind a byte count outside that range, and a sum that leaves it becomes a REAL. What
  is proved about the token count and the cost is stated for 64-bit operands.
\<close>

definition add_capture :: "string \<Rightarrow> capture_mode \<Rightarrow> int \<Rightarrow> store \<Rightarrow> bool \<times> store" where
  "add_capture run_id mode byte_count s =
     (True,
      s\<lparr>metrics :=
          (case metrics s run_id of
             None \<Rightarrow> metrics s
           | Some m \<Rightarrow>
               (let m1 = (case mode of
                            Light \<Rightarrow> m\<lparr>captures_light := captures_light m + 1,
                                       bytes_light := bytes_light m + byte_count\<rparr>
                          | Jpeg \<Rightarrow> m\<lparr>captures_jpeg := captures_jpeg m + 1,
                                      bytes_jpeg := bytes_jpeg m + byte_count\<rparr>
                          | Pdf \<Rightarrow> m\<lparr>captures_pdf := captures_pdf m + 1,
                                     bytes_pdf := bytes_pdf m + byte_count\<rparr>)
                in (metrics s)(run_id \<mapsto>
                     m1\<lparr>bytes_total := bytes_total m + byte_count,
                        tokens_estimated :=
                          cast_integer
                            (to_double (to_double (of_int (bytes_total m + byte_count)) * (25 / 100))),
                        cost_usd :=
                          to_double
                            (to_double
                               (to_double (to_double (of_int (bytes_total m + byte_count)) * (25 / 100))
                                * 3)
                             / 1000000)\<rparr>)))\<rparr>)"

definition add_action :: "string \<Rightarrow> action_type \<Rightarrow> store \<Rightarrow> bool \<times> store" where
  "add_action run_id atype s =
     (True,
      s\<lparr>metrics :=
          (case metrics s run_id of
             None \<Rightarrow> metrics s
           | Some m \<Rightarrow>
               (metrics s)(run_id \<mapsto>
                  (case atype of
                     Click \<Rightarrow> m\<lparr>actions_clicks := actions_clicks m + 1\<rparr>
                   | Type \<Rightarrow> m\<lparr>actions_types := actions_types m + 1\<rparr>
                   | Navigation \<Rightarrow> m\<lparr>actions_navigations := actions_navigations m + 1\<rparr>
                   | Scroll \<Rightarrow> m\<lparr>actions_scrolls := actions_scrolls m + 1\<rparr>)))\<rparr>)"

section \<open>The operations as steps on the store\<close>

text \<open>
  The calls that write, one constructor each with the call's arguments (and the clock
  value, the inventory listing and the run directory where the call takes them from
  outside). \<open>exec\<close> is the store after the call; a call that raises leaves the store as it
  was, since \<^verbatim>\<open>transaction\<close> rolls back. The read-only calls (\<^verbatim>\<open>recall\<close>, \<^verbatim>\<open>get\<close>, the lists
  and the statistics) do not change the store and have no constructor.
\<close>

datatype op =
    Learn string string string "attrs option" string
  | Fail string string string string
  | Clear "string option"
  | Refresh inventory string
  | Acquire string string string
  | Release string inventory string
  | Start string string "string option" string string
  | Complete string string int string
  | Progress string int "int option"
  | AddCapture string capture_mode int
  | AddAction string action_type

fun exec :: "op \<Rightarrow> store \<Rightarrow> store" where
  "exec (Learn act sel url attributes' now) s = snd (learn act sel url attributes' now s)"
| "exec (Fail act sel url now) s = snd (fail act sel url now s)"
| "exec (Clear d) s = snd (clear d s)"
| "exec (Refresh data now) s = snd (refresh data now s)"
| "exec (Acquire pl task_id now) s = snd (acquire pl task_id now s)"
| "exec (Release u data now) s = snd (release u data now s)"
| "exec (Start run_id wflow u now rdir) s =
     (case start run_id wflow u now rdir s of Inl e \<Rightarrow> s | Inr res \<Rightarrow> snd res)"
| "exec (Complete run_id st steps now) s = snd (complete run_id st steps now s)"
| "exec (Progress run_id step steps) s = snd (progress run_id step steps s)"
| "exec (AddCapture run_id mode n) s = snd (add_capture run_id mode n s)"
| "exec (AddAction run_id atype) s = snd (add_action run_id atype s)"

text \<open>The invariant of a simulator row: busy exactly when a task is set.\<close>

definition busy_iff_task :: "simulator \<Rightarrow> bool" where
  "busy_iff_task r = ((state r = ''busy'') = (current_task r \<noteq> None))"

text \<open>\<^verbatim>\<open>FOREIGN KEY (run_id) REFERENCES runs(id)\<close> of the metrics table, which the
  connection enforces (\<^verbatim>\<open>PRAGMA foreign_keys = ON\<close>).\<close>

definition metrics_fk :: "store \<Rightarrow> bool" where
  "metrics_fk s = (\<forall>rid. runs s rid = None \<longrightarrow> metrics s rid = None)"

text \<open>The simulator row with a given udid, and the key test \<^verbatim>\<open>WHERE udid = ?\<close>.\<close>

definition sim_row :: "string \<Rightarrow> store \<Rightarrow> simulator option" where
  "sim_row u s = find (\<lambda>r. udid r = u) (simulators s)"

text \<open>The invariant for the simulator with udid \<open>u\<close> (udid is the primary key: there is at
  most one such row), true when there is none.\<close>

definition sim_inv :: "string \<Rightarrow> store \<Rightarrow> bool" where
  "sim_inv u s = (case sim_row u s of None \<Rightarrow> True | Some r \<Rightarrow> busy_iff_task r)"

text \<open>\<^verbatim>\<open>udid TEXT PRIMARY KEY\<close> of the simulators table.\<close>

definition simulators_pk :: "store \<Rightarrow> bool" where
  "simulators_pk s = distinct (map udid (simulators s))"

section \<open>Two callers of acquire\<close>

text \<open>
  \<^verbatim>\<open>acquire\<close> issues its \<^verbatim>\<open>SELECT\<close> and its \<^verbatim>\<open>UPDATE\<close> as two statements on a connection
  opened by \<^verbatim>\<open>sqlite3.connect\<close> with the default settings, so the \<^verbatim>\<open>SELECT\<close> holds no lock
  once its row is fetched and the write transaction starts only at the \<^verbatim>\<open>UPDATE\<close>. A caller
  is therefore at one of three points: before the \<^verbatim>\<open>SELECT\<close>, between the two statements
  with the udid it read, or returned. A schedule says which of two callers runs its next
  statement.
\<close>

datatype acquire_pc =
    Ready string string string
  | Selected string string string
  | Returned "string option"

fun acquire_step :: "acquire_pc \<Rightarrow> store \<Rightarrow> acquire_pc \<times> store" where
  "acquire_step (Ready pl task_id now) s =
     (case acquire_select pl s of
        None \<Rightarrow> (Returned None, s)
      | Some u \<Rightarrow> (Selected task_id now u, s))"
| "acquire_step (Selected task_id now u) s = (Returned (Some u), acquire_update task_id now u s)"
| "acquire_step (Returned res) s = (Returned res, s)"

datatype caller = First | Second

fun interleave ::
  "caller list \<Rightarrow> acquire_pc \<times> acquire_pc \<times> store \<Rightarrow> acquire_pc \<times> acquire_pc \<times> store" where
  "interleave [] cfg = cfg"
| "interleave (First # sched) (p1, p2, s) =
     interleave sched (fst (acquire_step p1 s), p2, snd (acquire_step p1 s))"
| "interleave (Second # sched) (p1, p2, s) =
     interleave sched (p1, fst (acquire_step p2 s), snd (acquire_step p2 s))"

section \<open>A refresh beside another connection\<close>

text \<open>
  \<^verbatim>\<open>refresh\<close> runs, inside \<^verbatim>\<open>with db.transaction()\<close>, a \<^verbatim>\<open>SELECT\<close> and an upsert for every listed
  device. The connection is opened by \<^verbatim>\<open>sqlite3.connect\<close> with the default settings, so its
  write transaction begins at the first upsert and ends with the commit on leaving the
  block. The \<^verbatim>\<open>SELECT\<close> for the first device runs before any transaction and holds no lock
  once its row is fetched: another connection can commit between it and the upsert. From
  the first upsert on the connection holds the write lock, and every other writer waits.
  A refresh is at one of these points: before the \<^verbatim>\<open>SELECT\<close> for the head of the devices
  left, between that \<^verbatim>\<open>SELECT\<close> and its upsert with the state computed in Python, or
  committed; the flag says whether the write transaction is open.
\<close>

datatype refresh_pc =
    Selecting bool "device list"
  | Upserting bool device string "device list"
  | Committed

fun refresh_step :: "string \<Rightarrow> refresh_pc \<Rightarrow> store \<Rightarrow> refresh_pc \<times> store" where
  "refresh_step now (Selecting tx []) s = (Committed, s)"
| "refresh_step now (Selecting tx (dev # devs)) s =
     (Upserting tx dev (python_state dev (simulators s)) devs, s)"
| "refresh_step now (Upserting tx dev st devs) s =
     (Selecting True devs, s\<lparr>simulators := upsert_statement now dev st (simulators s)\<rparr>)"
| "refresh_step now Committed s = (Committed, s)"

fun write_locked :: "refresh_pc \<Rightarrow> bool" where
  "write_locked (Selecting tx devs) = tx"
| "write_locked (Upserting tx dev st devs) = tx"
| "write_locked Committed = False"

text \<open>
  A schedule says which connection runs next: the refresh its next statement, or the
  other connection a whole operation, committed at once. An operation scheduled while the
  refresh holds the write lock waits: the schedule does nothing for it.
\<close>

datatype connection = Refresher | Other op

fun beside_refresh ::
  "string \<Rightarrow> connection list \<Rightarrow> refresh_pc \<times> store \<Rightarrow> refresh_pc \<times> store" where
  "beside_refresh now [] cfg = cfg"
| "beside_refresh now (Refresher # sched) (pc, s) = beside_refresh now sched (refresh_step now pc s)"
| "beside_refresh now (Other op # sched) (pc, s) =
     beside_refresh now sched (pc, if write_locked pc then s else exec op s)"

section \<open>Example stores\<close>

definition empty_store :: store where
  "empty_store = \<lparr>selectors = [], simulators = [], runs = Map.empty, metrics = Map.empty\<rparr>"

text \<open>One booted phone after a \<^verbatim>\<open>refresh\<close>: the only simulator of its pool.\<close>

definition phone_listing :: inventory where
  "phone_listing =
     [(''iOS-17'', [\<lparr>dev_udid = ''U1'', dev_name = ''iPhone 15 Pro'', dev_state = ''Booted''\<rparr>])]"

definition shutdown_listing :: inventory where
  "shutdown_listing =
     [(''iOS-17'', [\<lparr>dev_udid = ''U1'', dev_name = ''iPhone 15 Pro'', dev_state = ''Shutdown''\<rparr>])]"

definition pool_store :: store where
  "pool_store = exec (Refresh phone_listing ''t0'') empty_store"

text \<open>A run \<open>r1\<close> started without a simulator, and one started on the phone.\<close>

definition started_store :: store where
  "started_store = exec (Start ''r1'' ''checkout'' None ''t1'' ''runs/r1'') empty_store"

definition bound_store :: store where
  "bound_store = exec (Start ''r1'' ''checkout'' (Some ''U1'') ''t1'' ''runs/r1'') pool_store"

text \<open>The cache after one \<^verbatim>\<open>learn\<close> of the selector \<^verbatim>\<open>#q\<close> for (\<^verbatim>\<open>example.com\<close>, \<^verbatim>\<open>search\<close>).\<close>

definition learned_store :: store where
  "learned_store = exec (Learn ''search'' ''#q'' ''https://www.example.com'' None ''t1'') empty_store"

section \<open>Domain keys of the selector cache\<close>

lemma startswith_append: "startswith (p @ s) p"
  by (simp add: startswith_def)

lemma startswith_scheme:
  "sch = ''http://'' \<or> sch = ''https://'' \<Longrightarrow>
   startswith (sch @ t) ''http://'' \<or> startswith (sch @ t) ''https://''"
  by (metis startswith_append)

lemma takeWhile_host:
  assumes "\<forall>c\<in>set host. P c" and "rest = [] \<or> \<not> P (hd rest)"
  shows "takeWhile P (host @ rest) = host"
proof (cases rest)
  case Nil
  then show ?thesis using assms(1) by simp
next
  case (Cons c cs)
  then have "\<not> P c" using assms(2) by simp
  then show ?thesis using assms(1) Cons by (simp add: takeWhile_tail)
qed

lemma drop_scheme:
  "sch = ''http://'' \<or> sch = ''https://'' \<Longrightarrow>
   drop 2 (drop 1 (dropWhile (\<lambda>c. c \<noteq> CHR '':'') (sch @ t))) = t"
  by (erule disjE) simp_all

lemma clean_scheme:
  "sch = ''http://'' \<or> sch = ''https://'' \<Longrightarrow>
   filter (\<lambda>c. c \<noteq> CHR 0x09 \<and> c \<noteq> CHR 0x0A \<and> c \<noteq> CHR 0x0D) (sch @ t) =
     sch @ filter (\<lambda>c. c \<noteq> CHR 0x09 \<and> c \<noteq> CHR 0x0A \<and> c \<noteq> CHR 0x0D) t"
  by (erule disjE) simp_all

lemma clean_netloc:
  "\<forall>c\<in>set loc. netloc_char c \<Longrightarrow>
   filter (\<lambda>c. c \<noteq> CHR 0x09 \<and> c \<noteq> CHR 0x0A \<and> c \<noteq> CHR 0x0D) loc = loc"
  by (simp add: filter_id_conv netloc_char_def)

lemma clean_rest:
  assumes "rest = [] \<or> hd rest = CHR ''/'' \<or> hd rest = CHR ''?'' \<or> hd rest = CHR ''#''"
  shows "filter (\<lambda>c. c \<noteq> CHR 0x09 \<and> c \<noteq> CHR 0x0A \<and> c \<noteq> CHR 0x0D) rest = []
     \<or> \<not> (hd (filter (\<lambda>c. c \<noteq> CHR 0x09 \<and> c \<noteq> CHR 0x0A \<and> c \<noteq> CHR 0x0D) rest) \<noteq> CHR ''/''
          \<and> hd (filter (\<lambda>c. c \<noteq> CHR 0x09 \<and> c \<noteq> CHR 0x0A \<and> c \<noteq> CHR 0x0D) rest) \<noteq> CHR ''?''
          \<and> hd (filter (\<lambda>c. c \<noteq> CHR 0x09 \<and> c \<noteq> CHR 0x0A \<and> c \<noteq> CHR 0x0D) rest) \<noteq> CHR ''#'')"
proof (cases rest)
  case Nil
  then show ?thesis by simp
next
  case (Cons c cs)
  then have "c = CHR ''/'' \<or> c = CHR ''?'' \<or> c = CHR ''#''" using assms by simp
  then show ?thesis unfolding Cons by (elim disjE) simp_all
qed

lemma urlparse_netloc_split:
  assumes "sch = ''http://'' \<or> sch = ''https://''"
    and "\<forall>c\<in>set loc. netloc_char c"
    and "rest = [] \<or> hd rest = CHR ''/'' \<or> hd rest = CHR ''?'' \<or> hd rest = CHR ''#''"
  shows "urlparse_netloc (sch @ loc @ rest) = loc"
proof -
  have d: "\<forall>c\<in>set loc. c \<noteq> CHR ''/'' \<and> c \<noteq> CHR ''?'' \<and> c \<noteq> CHR ''#''"
    using assms(2) by (simp add: netloc_char_def)
  have f: "filter (\<lambda>c. c \<noteq> CHR 0x09 \<and> c \<noteq> CHR 0x0A \<and> c \<noteq> CHR 0x0D) (sch @ loc @ rest) =
      sch @ loc @ filter (\<lambda>c. c \<noteq> CHR 0x09 \<and> c \<noteq> CHR 0x0A \<and> c \<noteq> CHR 0x0D) rest"
    unfolding clean_scheme [OF assms(1)] by (simp only: filter_append clean_netloc [OF assms(2)])
  show ?thesis
    unfolding urlparse_netloc_def f drop_scheme [OF assms(1)]
    by (rule takeWhile_host [OF d clean_rest [OF assms(3)]])
qed

text \<open>
  C9 (amended). The domain key that \<^verbatim>\<open>learn\<close>, \<^verbatim>\<open>recall\<close>, \<^verbatim>\<open>fail\<close> and \<^verbatim>\<open>get_all\<close> derive:
  an input that does not start with \<^verbatim>\<open>http://\<close> or \<^verbatim>\<open>https://\<close> is returned as it is,
  a leading \<^verbatim>\<open>www.\<close> included; an input \<open>scheme @ loc @ rest\<close>, where the network location
  \<open>loc\<close> is ASCII text with none of \<^verbatim>\<open>/ ? # [ ]\<close>, TAB, LF, CR, and \<open>rest\<close> is empty or starts
  with one of \<^verbatim>\<open>/ ? #\<close>, maps to \<open>loc\<close> without a leading \<^verbatim>\<open>www.\<close>. So
  \<^verbatim>\<open>https://www.example.com\<close> and \<^verbatim>\<open>https://example.com\<close> map to \<^verbatim>\<open>example.com\<close>, and
  \<^verbatim>\<open>www.example.com\<close> maps to itself.
\<close>

theorem extract_domain_amended:
  "(\<not> startswith url ''http://'' \<and> \<not> startswith url ''https://'' \<longrightarrow> extract_domain url = url)
   \<and> ((sch = ''http://'' \<or> sch = ''https://'')
        \<and> (\<forall>c\<in>set loc. netloc_char c)
        \<and> (rest = [] \<or> hd rest = CHR ''/'' \<or> hd rest = CHR ''?'' \<or> hd rest = CHR ''#'')
       \<longrightarrow> extract_domain (sch @ loc @ rest)
           = (if startswith loc ''www.'' then drop 4 loc else loc))
   \<and> extract_domain ''https://www.example.com'' = ''example.com''
   \<and> extract_domain ''https://example.com'' = ''example.com''
   \<and> extract_domain ''www.example.com'' = ''www.example.com''"
proof (intro conjI impI)
  assume "\<not> startswith url ''http://'' \<and> \<not> startswith url ''https://''"
  then show "extract_domain url = url" by (simp add: extract_domain_def)
next
  assume a: "(sch = ''http://'' \<or> sch = ''https://'')
        \<and> (\<forall>c\<in>set loc. netloc_char c)
        \<and> (rest = [] \<or> hd rest = CHR ''/'' \<or> hd rest = CHR ''?'' \<or> hd rest = CHR ''#'')"
  have n: "urlparse_netloc (sch @ loc @ rest) = loc"
    by (rule urlparse_netloc_split) (use a in blast)+
  have p: "startswith (sch @ loc @ rest) ''http://'' \<or> startswith (sch @ loc @ rest) ''https://''"
    by (rule startswith_scheme) (use a in blast)
  show "extract_domain (sch @ loc @ rest) = (if startswith loc ''www.'' then drop 4 loc else loc)"
    unfolding extract_domain_def n Let_def using p by simp
next
  show "extract_domain ''https://www.example.com'' = ''example.com''"
    by (simp add: extract_domain_def urlparse_netloc_def startswith_def)
  show "extract_domain ''https://example.com'' = ''example.com''"
    by (simp add: extract_domain_def urlparse_netloc_def startswith_def)
  show "extract_domain ''www.example.com'' = ''www.example.com''"
    by (simp add: extract_domain_def startswith_def)
qed

text \<open>The theorem at the bare domain \<^verbatim>\<open>example.com\<close> and at the URL
  \<^verbatim>\<open>http://www.example.com/cart?id=1\<close>.\<close>

theorem extract_domain_amended_witness:
  "\<not> startswith ''example.com'' ''http://'' \<and> \<not> startswith ''example.com'' ''https://''
   \<and> extract_domain ''example.com'' = ''example.com''
   \<and> list_all netloc_char ''www.example.com''
   \<and> extract_domain (''http://'' @ ''www.example.com'' @ ''/cart?id=1'') = ''example.com''"
proof -
  note t = extract_domain_amended [of "''example.com''" "''http://''" "''www.example.com''" "''/cart?id=1''"]
  have h1: "\<not> startswith ''example.com'' ''http://'' \<and> \<not> startswith ''example.com'' ''https://''"
    by (simp add: startswith_def)
  have c1: "extract_domain ''example.com'' = ''example.com''"
    using t h1 by blast
  have h2: "list_all netloc_char ''www.example.com''"
    by (simp add: netloc_char_def)
  have h2': "\<forall>c\<in>set ''www.example.com''. netloc_char c"
    using h2 unfolding list_all_iff .
  have h3: "''/cart?id=1'' = [] \<or> hd ''/cart?id=1'' = CHR ''/'' \<or> hd ''/cart?id=1'' = CHR ''?''
      \<or> hd ''/cart?id=1'' = CHR ''#''"
    by simp
  have "extract_domain (''http://'' @ ''www.example.com'' @ ''/cart?id=1'')
      = (if startswith ''www.example.com'' ''www.'' then drop 4 ''www.example.com'' else ''www.example.com'')"
    using t h2' h3 by blast
  then have c2: "extract_domain (''http://'' @ ''www.example.com'' @ ''/cart?id=1'') = ''example.com''"
    by (simp add: startswith_def)
  show ?thesis using h1 c1 h2 c2 by blast
qed

text \<open>C9 as stated fails: the bare input \<^verbatim>\<open>www.example.com\<close> does not map to the key
  \<^verbatim>\<open>example.com\<close> that \<^verbatim>\<open>https://www.example.com\<close> maps to.\<close>

theorem extract_domain_bare_www_counterexample:
  "extract_domain ''https://www.example.com'' = ''example.com''
   \<and> extract_domain ''www.example.com'' \<noteq> ''example.com''"
  by (simp add: extract_domain_def urlparse_netloc_def startswith_def)

section \<open>Selector cache: failures and reliability\<close>

lemma find_map_same_test:
  "(\<And>x. P (f x) = P x) \<Longrightarrow> find P (map f xs) = map_option f (find P xs)"
  by (induction xs) simp_all

lemma find_append_last:
  "find P xs = None \<Longrightarrow> P y \<Longrightarrow> find P (xs @ [y]) = Some y"
  by (induction xs) (simp_all split: if_splits)

lemma map_if_unchanged:
  "(\<And>x. x \<in> set xs \<Longrightarrow> \<not> Q x) \<Longrightarrow> map (\<lambda>r. if Q r then g r else r) xs = xs"
  by (induction xs) simp_all

lemma filter_none:
  "find P xs = None \<Longrightarrow> filter P xs = []"
  by (induction xs) (simp_all split: if_splits)

lemma selectors_fail:
  "selectors (snd (fail act sel url now s)) =
     map (\<lambda>r. if sel_key (extract_domain url) act r \<and> selector r = sel
               then r\<lparr>fail_count := fail_count r + 1, last_failed := Some now\<rparr>
               else r) (selectors s)"
  by (simp add: fail_def Let_def)

lemma find_fail:
  "find (sel_key (extract_domain url) act) (selectors (snd (fail act sel url now s))) =
     map_option (\<lambda>r. if selector r = sel
                      then r\<lparr>fail_count := fail_count r + 1, last_failed := Some now\<rparr>
                      else r)
       (find (sel_key (extract_domain url) act) (selectors s))"
proof -
  let ?P = "sel_key (extract_domain url) act"
  let ?f = "\<lambda>r. if ?P r \<and> selector r = sel
               then r\<lparr>fail_count := fail_count r + 1, last_failed := Some now\<rparr> else r"
  have k: "\<And>x. ?P (?f x) = ?P x" by (simp add: sel_key_def)
  have "find ?P (map ?f (selectors s)) = map_option ?f (find ?P (selectors s))"
    by (rule find_map_same_test) (rule k)
  moreover have "map_option ?f (find ?P (selectors s)) =
      map_option (\<lambda>r. if selector r = sel
                      then r\<lparr>fail_count := fail_count r + 1, last_failed := Some now\<rparr>
                      else r) (find ?P (selectors s))"
    by (cases "find ?P (selectors s)") (auto dest: find_Some_iff [THEN iffD1])
  ultimately show ?thesis by (simp only: selectors_fail)
qed

lemma fail_noop:
  assumes "\<forall>r\<in>set (selectors s). sel_key (extract_domain url) act r \<longrightarrow> selector r \<noteq> sel"
  shows "snd (fail act sel url now s) = s"
proof -
  have "selectors (snd (fail act sel url now s)) = selectors s"
    unfolding selectors_fail by (rule map_if_unchanged) (use assms in blast)
  then show ?thesis by (simp add: fail_def Let_def)
qed

lemma learn_rows_selector:
  assumes "r \<in> set (selectors (snd (learn act sel url ats now s)))"
    and "sel_key (extract_domain url) act r"
  shows "selector r = sel"
  using assms by (auto simp: learn_def Let_def split: if_splits)

lemma find_learn_new:
  assumes "find (sel_key (extract_domain url) act) (selectors s) = None"
  shows "find (sel_key (extract_domain url) act) (selectors (snd (learn act sel url ats now s))) =
     Some \<lparr>domain = extract_domain url, action = act, selector = sel, success_count = 1,
           fail_count = 0, attributes = attrs_json ats, last_used = Some now, last_failed = None\<rparr>"
proof -
  let ?P = "sel_key (extract_domain url) act"
  let ?new = "\<lparr>domain = extract_domain url, action = act, selector = sel, success_count = 1,
           fail_count = 0, attributes = attrs_json ats, last_used = Some now, last_failed = None\<rparr>"
  have none: "\<And>x. x \<in> set (selectors s) \<Longrightarrow> \<not> ?P x"
    using assms by (simp add: find_None_iff)
  have rows: "selectors (snd (learn act sel url ats now s)) = selectors s @ [?new]"
    by (simp add: learn_def Let_def filter_none [OF assms] map_if_unchanged [OF none])
  show ?thesis unfolding rows
    by (rule find_append_last [OF assms]) (simp add: sel_key_def)
qed

lemma recall_reliability_formula:
  "recall act url s = Some res \<Longrightarrow>
   rc_reliability res
     = of_int (rc_success_count res) / of_int (max 1 (rc_success_count res + rc_fail_count res))"
  by (auto simp: recall_def Let_def split: option.splits)

lemma learned_store_rows:
  "selectors learned_store =
     [\<lparr>domain = ''example.com'', action = ''search'', selector = ''#q'', success_count = 1,
       fail_count = 0, attributes = None, last_used = Some ''t1'', last_failed = None\<rparr>]"
  by (simp add: learned_store_def empty_store_def learn_def Let_def attrs_json_def
      extract_domain_def urlparse_netloc_def startswith_def sel_key_def)

lemma extract_domain_example: "extract_domain ''example.com'' = ''example.com''"
  by (simp add: extract_domain_def startswith_def)

text \<open>
  C5. \<^verbatim>\<open>fail(action, selector, url)\<close> counts a failure only against the selector it names.
  When the row stored for (domain, action) holds the given selector, its \<^verbatim>\<open>fail_count\<close> grows
  by one and its \<^verbatim>\<open>last_failed\<close> becomes the call's time stamp. When no row for
  (domain, action) holds the given selector, the store is left as it was; in particular
  after a \<^verbatim>\<open>learn\<close> that replaced the stored selector by a different one.
\<close>

theorem fail_counts_only_matching_selector:
  "(find (sel_key (extract_domain url) act) (selectors s) = Some r \<and> selector r = sel \<longrightarrow>
      find (sel_key (extract_domain url) act) (selectors (snd (fail act sel url now s)))
        = Some (r\<lparr>fail_count := fail_count r + 1, last_failed := Some now\<rparr>))
   \<and> ((\<forall>x\<in>set (selectors s). sel_key (extract_domain url) act x \<longrightarrow> selector x \<noteq> sel) \<longrightarrow>
        snd (fail act sel url now s) = s)
   \<and> (sel' \<noteq> sel \<longrightarrow>
        snd (fail act sel url now (snd (learn act sel' url ats now' s)))
          = snd (learn act sel' url ats now' s))"
proof (intro conjI impI)
  assume "find (sel_key (extract_domain url) act) (selectors s) = Some r \<and> selector r = sel"
  then show "find (sel_key (extract_domain url) act) (selectors (snd (fail act sel url now s)))
        = Some (r\<lparr>fail_count := fail_count r + 1, last_failed := Some now\<rparr>)"
    by (simp add: find_fail)
next
  assume "\<forall>x\<in>set (selectors s). sel_key (extract_domain url) act x \<longrightarrow> selector x \<noteq> sel"
  then show "snd (fail act sel url now s) = s" by (rule fail_noop)
next
  assume d: "sel' \<noteq> sel"
  show "snd (fail act sel url now (snd (learn act sel' url ats now' s)))
          = snd (learn act sel' url ats now' s)"
    by (rule fail_noop) (use d learn_rows_selector in blast)
qed

text \<open>The theorem on the cache that learned \<^verbatim>\<open>#q\<close>: a failure of \<^verbatim>\<open>#q\<close> is counted, a
  failure of \<^verbatim>\<open>#old\<close> is not, and neither is a failure of \<^verbatim>\<open>#q\<close> after \<^verbatim>\<open>#new\<close> was learned.\<close>

theorem fail_counts_only_matching_selector_witness:
  "map_option selector (find (sel_key ''example.com'' ''search'') (selectors learned_store)) = Some ''#q''
   \<and> map_option fail_count (find (sel_key ''example.com'' ''search'') (selectors learned_store)) = Some 0
   \<and> map_option fail_count (find (sel_key ''example.com'' ''search'')
        (selectors (snd (fail ''search'' ''#q'' ''example.com'' ''t2'' learned_store)))) = Some 1
   \<and> map_option last_failed (find (sel_key ''example.com'' ''search'')
        (selectors (snd (fail ''search'' ''#q'' ''example.com'' ''t2'' learned_store)))) = Some (Some ''t2'')
   \<and> list_all (\<lambda>x. \<not> (sel_key ''example.com'' ''search'' x \<and> selector x = ''#old'')) (selectors learned_store)
   \<and> snd (fail ''search'' ''#old'' ''example.com'' ''t2'' learned_store) = learned_store
   \<and> ''#new'' \<noteq> ''#q''
   \<and> snd (fail ''search'' ''#q'' ''example.com'' ''t3''
            (snd (learn ''search'' ''#new'' ''example.com'' None ''t2'' learned_store)))
       = snd (learn ''search'' ''#new'' ''example.com'' None ''t2'' learned_store)"
proof -
  let ?row = "\<lparr>domain = ''example.com'', action = ''search'', selector = ''#q'', success_count = 1,
       fail_count = 0, attributes = None, last_used = Some ''t1'', last_failed = None\<rparr>"
  have f: "find (sel_key ''example.com'' ''search'') (selectors learned_store) = Some ?row"
    by (simp add: learned_store_rows sel_key_def)
  note t1 = fail_counts_only_matching_selector
      [of "''example.com''" "''search''" learned_store ?row "''#q''" "''t2''" "''#new''" None "''t2''",
       unfolded extract_domain_example]
  note t2 = fail_counts_only_matching_selector
      [of "''example.com''" "''search''" learned_store ?row "''#old''" "''t2''" "''#new''" None "''t2''",
       unfolded extract_domain_example]
  note t3 = fail_counts_only_matching_selector
      [of "''example.com''" "''search''" learned_store ?row "''#q''" "''t3''" "''#new''" None "''t2''",
       unfolded extract_domain_example]
  have a: "find (sel_key ''example.com'' ''search'')
        (selectors (snd (fail ''search'' ''#q'' ''example.com'' ''t2'' learned_store)))
      = Some (?row\<lparr>fail_count := fail_count ?row + 1, last_failed := Some ''t2''\<rparr>)"
    using t1 f by simp
  have h: "list_all (\<lambda>x. \<not> (sel_key ''example.com'' ''search'' x \<and> selector x = ''#old''))
      (selectors learned_store)"
    by (simp add: learned_store_rows)
  then have h': "\<forall>x\<in>set (selectors learned_store).
      sel_key ''example.com'' ''search'' x \<longrightarrow> selector x \<noteq> ''#old''"
    by (simp add: list_all_iff)
  have b: "snd (fail ''search'' ''#old'' ''example.com'' ''t2'' learned_store) = learned_store"
    using t2 h' by blast
  have n: "''#new'' \<noteq> ''#q''" by simp
  have c: "snd (fail ''search'' ''#q'' ''example.com'' ''t3''
            (snd (learn ''search'' ''#new'' ''example.com'' None ''t2'' learned_store)))
       = snd (learn ''search'' ''#new'' ''example.com'' None ''t2'' learned_store)"
    using t3 n by blast
  show ?thesis using f a h b n c by simp
qed

text \<open>
  C6. Starting from no row for (domain, action): after one \<^verbatim>\<open>learn\<close>, \<^verbatim>\<open>recall\<close> reports
  reliability 1; after one \<^verbatim>\<open>learn\<close> and two \<^verbatim>\<open>fail\<close> calls with the same selector it
  reports one success, two failures and reliability 1/3. (\<open>recall_reliability_formula\<close>
  above is the formula in general.)
\<close>

theorem reliability_after_learn_and_fail:
  "find (sel_key (extract_domain url) act) (selectors s) = None \<Longrightarrow>
   map_option rc_reliability (recall act url (snd (learn act sel url ats n1 s))) = Some 1
   \<and> map_option rc_reliability
        (recall act url
           (snd (fail act sel url n3 (snd (fail act sel url n2 (snd (learn act sel url ats n1 s)))))))
       = Some (1 / 3)
   \<and> map_option (\<lambda>res. (rc_success_count res, rc_fail_count res))
        (recall act url
           (snd (fail act sel url n3 (snd (fail act sel url n2 (snd (learn act sel url ats n1 s)))))))
       = Some (1, 2)"
  by (simp add: recall_def find_fail find_learn_new)

text \<open>The theorem on the empty cache, for \<^verbatim>\<open>https://www.example.com\<close>.\<close>

theorem reliability_after_learn_and_fail_witness:
  "find (sel_key (extract_domain ''https://www.example.com'') ''search'') (selectors empty_store) = None
   \<and> map_option rc_reliability
        (recall ''search'' ''https://www.example.com''
           (snd (learn ''search'' ''#q'' ''https://www.example.com'' None ''t1'' empty_store))) = Some 1
   \<and> map_option rc_reliability
        (recall ''search'' ''https://www.example.com''
           (snd (fail ''search'' ''#q'' ''https://www.example.com'' ''t3''
              (snd (fail ''search'' ''#q'' ''https://www.example.com'' ''t2''
                 (snd (learn ''search'' ''#q'' ''https://www.example.com'' None ''t1'' empty_store)))))))
       = Some (1 / 3)"
proof -
  have h: "find (sel_key (extract_domain ''https://www.example.com'') ''search'') (selectors empty_store) = None"
    by (simp add: empty_store_def)
  show ?thesis
    using h reliability_after_learn_and_fail [OF h, of "''#q''" None "''t1''" "''t3''" "''t2''"]
    by blast
qed

section \<open>Rounding to a double\<close>

lemma bitlen_lower: "0 < a \<Longrightarrow> (2::rat) powi (bitlen a - 1) \<le> of_int a"
proof -
  assume a: "0 < a"
  then have "1 \<le> bitlen a" by (auto simp: bitlen_alt_def)
  then have "(2::rat) powi (bitlen a - 1) = 2 ^ nat (bitlen a - 1)" by (simp add: power_int_def)
  also have "\<dots> = of_int (2 ^ nat (bitlen a - 1))" by simp
  also have "\<dots> \<le> of_int a" using bitlen_bounds [OF a] by (simp only: of_int_le_iff)
  finally show ?thesis .
qed

lemma bitlen_upper: "0 < b \<Longrightarrow> of_int b < (2::rat) powi (bitlen b)"
proof -
  assume b: "0 < b"
  have "(of_int b :: rat) < of_int (2 ^ nat (bitlen b))"
    using bitlen_bounds [OF b] by (simp only: of_int_less_iff)
  also have "\<dots> = 2 powi (bitlen b)" using bitlen_nonneg [of b] by (simp add: power_int_def)
  finally show ?thesis .
qed

lemma exponent_bounds:
  assumes "x \<noteq> 0"
  shows "2 powi exponent x \<le> \<bar>x\<bar>" and "\<bar>x\<bar> < 2 powi (exponent x + 1)"
proof -
  obtain a b where q: "quotient_of \<bar>x\<bar> = (a, b)" by (cases "quotient_of \<bar>x\<bar>")
  have b: "0 < b" using quotient_of_denom_pos [OF q] .
  have x: "\<bar>x\<bar> = of_int a / of_int b" using quotient_of_div [OF q] .
  have "0 < \<bar>x\<bar>" using assms by simp
  then have a: "0 < a" unfolding x using b by (simp add: zero_less_divide_iff)
  let ?d = "bitlen a - bitlen b"
  have e: "exponent x = (if 2 powi ?d \<le> \<bar>x\<bar> then ?d else ?d - 1)"
    by (simp add: exponent_def q Let_def)
  have "(2::rat) powi (?d - 1) = 2 powi (bitlen a - 1) / 2 powi (bitlen b)"
    by (simp add: power_int_diff)
  also have "\<dots> \<le> of_int a / of_int b"
    using bitlen_lower [OF a] bitlen_upper [OF b] a b by (intro frac_le) simp_all
  finally have lo: "2 powi (?d - 1) \<le> \<bar>x\<bar>" unfolding x .
  have "of_int a / of_int b < (2::rat) powi (bitlen a) / 2 powi (bitlen b - 1)"
    using bitlen_upper [OF a] bitlen_lower [OF b] b a by (intro frac_less) simp_all
  also have "\<dots> = 2 powi (?d + 1)" by (simp add: power_int_diff power_int_add)
  finally have hi: "\<bar>x\<bar> < 2 powi (?d + 1)" unfolding x .
  show "2 powi exponent x \<le> \<bar>x\<bar>" using lo by (simp add: e)
  show "\<bar>x\<bar> < 2 powi (exponent x + 1)" using hi by (auto simp add: e not_le)
qed

lemma round_half_even_of_int: "round_half_even (of_int k) = k"
  by (simp add: round_half_even_def)

lemma round_half_even_error: "\<bar>of_int (round_half_even q) - q\<bar> \<le> 1 / 2"
proof -
  have "of_int \<lfloor>q\<rfloor> \<le> q" "q < of_int \<lfloor>q\<rfloor> + 1" by linarith+
  then show ?thesis by (auto simp add: round_half_even_def Let_def)
qed

lemma to_double_exact:
  assumes "\<bar>k\<bar> < 2 ^ 53"
  shows "to_double (of_int k * 2 powi j) = of_int k * 2 powi j"
proof (cases "k = 0")
  case True
  then show ?thesis by (simp add: to_double_def)
next
  case False
  let ?x = "(of_int k :: rat) * 2 powi j"
  have nz: "?x \<noteq> 0" using False by simp
  have "\<bar>?x\<bar> = of_int \<bar>k\<bar> * 2 powi j" by (simp add: abs_mult)
  also have "\<dots> < of_int (2 ^ 53) * 2 powi j"
    using assms by (intro mult_strict_right_mono) (simp_all only: of_int_less_iff, simp)
  also have "\<dots> = 2 powi (53 + j)" by (simp add: power_int_add)
  finally have "2 powi exponent ?x < (2::rat) powi (53 + j)"
    using exponent_bounds(1) [OF nz] by simp
  then have "exponent ?x < 53 + j"
    using power_int_increasing [of "53 + j" "exponent ?x" "2::rat"] by (cases "exponent ?x < 53 + j") simp_all
  then have le: "0 \<le> j - (exponent ?x - 52)" by simp
  have "?x / 2 powi (exponent ?x - 52) = of_int k * 2 powi (j - (exponent ?x - 52))"
    by (simp add: power_int_diff)
  also have "\<dots> = of_int (k * 2 ^ nat (j - (exponent ?x - 52)))"
    using le by (simp add: power_int_def)
  finally have r: "round_half_even (?x / 2 powi (exponent ?x - 52)) = k * 2 ^ nat (j - (exponent ?x - 52))"
    by (simp only: round_half_even_of_int)
  have "to_double ?x = of_int (k * 2 ^ nat (j - (exponent ?x - 52))) * 2 powi (exponent ?x - 52)"
    using nz by (simp only: to_double_def Let_def r if_False)
  also have "\<dots> = of_int k * (2 powi (j - (exponent ?x - 52)) * 2 powi (exponent ?x - 52))"
    using le by (simp add: power_int_def)
  also have "\<dots> = ?x" by (simp add: power_int_diff)
  finally show ?thesis .
qed

lemma to_double_error: "\<bar>to_double x - x\<bar> \<le> \<bar>x\<bar> / 2 ^ 53"
proof (cases "x = 0")
  case True
  then show ?thesis by (simp add: to_double_def)
next
  case False
  let ?e = "exponent x - 52"
  have p: "(0::rat) < 2 powi ?e" by simp
  have "to_double x - x = (of_int (round_half_even (x / 2 powi ?e)) - x / 2 powi ?e) * 2 powi ?e"
    using False by (simp add: to_double_def Let_def algebra_simps)
  then have "\<bar>to_double x - x\<bar> = \<bar>of_int (round_half_even (x / 2 powi ?e)) - x / 2 powi ?e\<bar> * 2 powi ?e"
    by (simp add: abs_mult)
  also have "\<dots> \<le> 1 / 2 * 2 powi ?e"
    using round_half_even_error [of "x / 2 powi ?e"] by (intro mult_right_mono) simp_all
  also have "\<dots> = 2 powi exponent x / 2 ^ 53" by (simp add: power_int_diff)
  also have "\<dots> \<le> \<bar>x\<bar> / 2 ^ 53"
    using exponent_bounds(1) [OF False] by (intro divide_right_mono) simp_all
  finally show ?thesis .
qed


lemma to_double_int: "\<bar>k\<bar> < 2 ^ 53 \<Longrightarrow> to_double (of_int k) = of_int k"
  using to_double_exact [of k 0] by simp

lemma to_double_quarter:
  "\<bar>k\<bar> < 2 ^ 53 \<Longrightarrow> to_double (of_int k * (25 / 100)) = of_int k * (25 / 100)"
  using to_double_exact [of k "- 2"] by (simp add: power_int_minus)

lemma sqlite_quarter:
  assumes "\<bar>k\<bar> < 2 ^ 53"
  shows "to_double (to_double (of_int k) * (25 / 100)) = of_int k * (25 / 100)"
  by (simp only: to_double_int [OF assms] to_double_quarter [OF assms])

lemma sqlite_three_quarters:
  assumes "\<bar>k\<bar> < 2 ^ 51"
  shows "to_double (to_double (to_double (of_int k) * (25 / 100)) * 3) = of_int k * (25 / 100) * 3"
proof -
  have k: "\<bar>k\<bar> < 2 ^ 53" using assms by simp
  have k3: "\<bar>3 * k\<bar> < 2 ^ 53" using assms by simp
  have "(of_int k :: rat) * (25 / 100) * 3 = of_int (3 * k) * (25 / 100)" by simp
  then have "to_double (of_int k * (25 / 100) * 3) = to_double (of_int (3 * k) * (25 / 100))"
    by (rule arg_cong)
  also have "\<dots> = of_int (3 * k) * (25 / 100)" by (rule to_double_quarter [OF k3])
  also have "\<dots> = of_int k * (25 / 100) * 3" by simp
  finally show ?thesis by (simp only: sqlite_quarter [OF k])
qed

lemma cast_integer_abs: "\<bar>of_int (cast_integer q) :: rat\<bar> \<le> \<bar>q\<bar>"
proof (cases "0 \<le> q")
  case True
  then have "0 \<le> \<lfloor>q\<rfloor>" by simp
  moreover have "of_int \<lfloor>q\<rfloor> \<le> q" by simp
  ultimately show ?thesis using True by (simp add: cast_integer_def)
next
  case False
  then have "\<lceil>q\<rceil> \<le> 0" by (simp add: ceiling_le_iff)
  moreover have "q \<le> of_int \<lceil>q\<rceil>" by simp
  ultimately show ?thesis using False by (simp add: cast_integer_def)
qed

lemma cost_from_tokens_differs:
  assumes r: "\<bar>k\<bar> < 2 ^ 51" and d: "\<not> 4 dvd k"
  shows "to_double (of_int k * (25 / 100) * 3 / 1000000)
       \<noteq> to_double (of_int (cast_integer (of_int k * (25 / 100))) * 3 / 1000000)"
proof
  let ?t = "cast_integer (of_int k * (25 / 100))"
  let ?X = "(of_int k :: rat) * (25 / 100) * 3 / 1000000"
  let ?Y = "(of_int ?t :: rat) * 3 / 1000000"
  assume eq: "to_double ?X = to_double ?Y"
  have "k \<noteq> 4 * ?t" using d by (metis dvd_triv_left)
  then have "1 \<le> \<bar>k - 4 * ?t\<bar>" by simp
  then have "(1::rat) \<le> of_int \<bar>k - 4 * ?t\<bar>" by (simp only: of_int_1_le_iff)
  then have diff: "(1::rat) \<le> \<bar>of_int k - 4 * of_int ?t\<bar>" by simp
  have t: "\<bar>of_int ?t :: rat\<bar> \<le> \<bar>of_int k\<bar> / 4"
    using cast_integer_abs [of "of_int k * (25 / 100)"] by (simp add: abs_mult)
  have "(of_int \<bar>k\<bar> :: rat) < of_int (2 ^ 51)" using r by (simp only: of_int_less_iff)
  then have kb: "\<bar>of_int k :: rat\<bar> < 2 ^ 51" by simp
  have eX: "\<bar>to_double ?X - ?X\<bar> \<le> \<bar>?X\<bar> / 2 ^ 53" by (rule to_double_error)
  have eY: "\<bar>to_double ?Y - ?Y\<bar> \<le> \<bar>?Y\<bar> / 2 ^ 53" by (rule to_double_error)
  have aX: "\<bar>?X\<bar> = \<bar>of_int k :: rat\<bar> * 3 / 4000000" by (simp add: abs_mult)
  have aY: "\<bar>?Y\<bar> = \<bar>of_int ?t :: rat\<bar> * 3 / 1000000" by (simp add: abs_mult)
  have e1: "?X - ?Y = (of_int k - 4 * of_int ?t) * (3 / 4000000)" by (simp add: algebra_simps)
  have XY: "\<bar>?X - ?Y\<bar> = \<bar>of_int k - 4 * of_int ?t :: rat\<bar> * (3 / 4000000)"
    unfolding e1 abs_mult by simp
  have "\<bar>?X - ?Y\<bar> \<le> \<bar>to_double ?X - ?X\<bar> + \<bar>to_double ?Y - ?Y\<bar>"
    using eq by linarith
  also have "\<dots> \<le> \<bar>?X\<bar> / 2 ^ 53 + \<bar>?Y\<bar> / 2 ^ 53" using eX eY by linarith
  also have "\<dots> \<le> (\<bar>of_int k :: rat\<bar> * 3 / 4000000) / 2 ^ 53 + (\<bar>of_int k :: rat\<bar> * 3 / 4000000) / 2 ^ 53"
    unfolding aX aY using t by simp
  also have "\<dots> < 3 / 8000000" using kb by simp
  finally have "\<bar>of_int k - 4 * of_int ?t :: rat\<bar> * (3 / 4000000) < 3 / 8000000" unfolding XY .
  then show False using diff by simp
qed

lemma to_double_numeral:
  "numeral w < (2::int) ^ 53 \<Longrightarrow> to_double (numeral w) = numeral w"
  using to_double_int [of "numeral w"] by simp

lemma to_double_five_quarters: "to_double (5 / 4) = 5 / 4"
  using to_double_exact [of 5 "- 2"] by (simp add: power_int_minus)

lemma to_double_fifteen_quarters: "to_double (15 / 4) = 15 / 4"
  using to_double_exact [of 15 "- 2"] by (simp add: power_int_minus)

lemma cost_of_five_bytes: "to_double (3 / 800000) \<noteq> to_double (3 / 1000000)"
  by code_simp

text \<open>Past \<open>2\<^sup>5\<^sup>3\<close> the conversion of the total to a REAL rounds, and the token count leaves
  the floor of the exact quarter: at \<open>2\<^sup>5\<^sup>3 + 3\<close> bytes it is \<open>2\<^sup>5\<^sup>1 + 1\<close>.\<close>

lemma tokens_of_large_total:
  "cast_integer (to_double (to_double (of_int 9007199254740995) * (25 / 100))) = 2251799813685249
   \<and> \<lfloor>(of_int 9007199254740995 :: rat) * (25 / 100)\<rfloor> = 2251799813685248"
  by code_simp

section \<open>Metrics: tokens and cost of a capture\<close>

lemma floor_quarter: "\<lfloor>(of_int k :: rat) * (25 / 100)\<rfloor> = k div 4"
proof -
  have "(of_int k :: rat) * (25 / 100) = of_int k / of_int 4" by simp
  then show ?thesis by (simp only: floor_divide_of_int_eq)
qed

lemma cast_integer_quarter_nonneg:
  "0 \<le> k \<Longrightarrow> cast_integer (of_int k * (25 / 100)) = k div 4"
  using floor_divide_of_int_eq [of k 4, where ?'a = rat] by (simp add: cast_integer_def)

lemma cast_integer_quarter_dvd:
  assumes "4 dvd k"
  shows "cast_integer (of_int k * (25 / 100)) = k div 4"
proof -
  obtain j where k: "k = 4 * j" using assms by (auto simp: dvd_def)
  have "(of_int k :: rat) * (25 / 100) = of_int j" by (simp add: k)
  then show ?thesis by (simp add: cast_integer_def k)
qed

lemma metrics_add_capture:
  "metrics s run_id = Some m \<Longrightarrow>
   \<exists>m'. metrics (snd (add_capture run_id mode n s)) run_id = Some m'
     \<and> bytes_total m' = bytes_total m + n
     \<and> tokens_estimated m'
         = cast_integer (to_double (to_double (of_int (bytes_total m + n)) * (25 / 100)))
     \<and> cost_usd m'
         = to_double (to_double (to_double (to_double (of_int (bytes_total m + n)) * (25 / 100)) * 3)
             / 1000000)"
  by (cases mode) (simp_all add: add_capture_def Let_def)

lemma started_store_metrics: "metrics started_store ''r1'' = Some zero_metrics"
  by (simp add: started_store_def start_def empty_store_def)

lemma two_captures_example:
  "map_option (\<lambda>m. (bytes_total m, tokens_estimated m, cost_usd m))
     (metrics (exec (AddCapture ''r1'' Light 1000) (exec (AddCapture ''r1'' Jpeg 4000) started_store)) ''r1'')
   = Some (5000, 1250, to_double (375 / 100000))"
  by (simp add: add_capture_def Let_def started_store_metrics zero_metrics_def cast_integer_def
      to_double_numeral)

lemma floor_five_quarters: "\<lfloor>5 / 4 :: rat\<rfloor> = 1"
  by (rule floor_unique) simp_all

text \<open>
  C3 (amended). For an existing metrics row, 64-bit operands and a new byte total \<open>n\<close> with
  \<open>\<bar>n\<bar> < 2\<^sup>5\<^sup>1\<close>, \<^verbatim>\<open>add_capture\<close> adds the byte count to \<^verbatim>\<open>bytes_total\<close> and derives both
  estimates from the new total: the token count is \<open>n \<times> 0.25\<close> truncated toward zero, which
  is \<open>floor (n \<times> 0.25)\<close> for \<open>n \<ge> 0\<close>; the cost is the double nearest to
  \<open>n \<times> 0.25 \<times> 3 / 1000000\<close>, taken from the product before truncation, and it is the double
  nearest to \<open>tokens \<times> 3 / 1000000\<close> if and only if 4 divides \<open>n\<close>. A \<^verbatim>\<open>jpeg\<close> capture of 4000
  bytes followed by a \<^verbatim>\<open>light\<close> capture of 1000 bytes gives 5000 bytes, 1250 tokens and as
  cost the double nearest to 0.00375.
\<close>

theorem add_capture_tokens_and_cost:
  "(metrics s run_id = Some m
      \<and> - (2 ^ 63) \<le> bytes_total m \<and> bytes_total m < 2 ^ 63
      \<and> - (2 ^ 63) \<le> n \<and> n < 2 ^ 63
      \<and> \<bar>bytes_total m + n\<bar> < 2 ^ 51
    \<longrightarrow> (\<exists>m'. metrics (snd (add_capture run_id mode n s)) run_id = Some m'
      \<and> bytes_total m' = bytes_total m + n
      \<and> tokens_estimated m' = cast_integer (of_int (bytes_total m') * (25 / 100))
      \<and> (0 \<le> bytes_total m' \<longrightarrow> tokens_estimated m' = \<lfloor>(of_int (bytes_total m') :: rat) * (25 / 100)\<rfloor>)
      \<and> cost_usd m' = to_double (of_int (bytes_total m') * (25 / 100) * 3 / 1000000)
      \<and> ((cost_usd m' = to_double (of_int (tokens_estimated m') * 3 / 1000000))
           = (4 dvd bytes_total m'))))
   \<and> map_option (\<lambda>m. (bytes_total m, tokens_estimated m, cost_usd m))
        (metrics (exec (AddCapture ''r1'' Light 1000) (exec (AddCapture ''r1'' Jpeg 4000) started_store)) ''r1'')
      = Some (5000, 1250, to_double (375 / 100000))"
proof (intro conjI impI)
  assume h: "metrics s run_id = Some m
      \<and> - (2 ^ 63) \<le> bytes_total m \<and> bytes_total m < 2 ^ 63
      \<and> - (2 ^ 63) \<le> n \<and> n < 2 ^ 63
      \<and> \<bar>bytes_total m + n\<bar> < 2 ^ 51"
  then have a: "metrics s run_id = Some m" and r: "\<bar>bytes_total m + n\<bar> < 2 ^ 51"
    by blast+
  have r53: "\<bar>bytes_total m + n\<bar> < 2 ^ 53" using r by simp
  from metrics_add_capture [OF a, of mode n] obtain m' where
    m': "metrics (snd (add_capture run_id mode n s)) run_id = Some m'"
    and b: "bytes_total m' = bytes_total m + n"
    and t: "tokens_estimated m'
         = cast_integer (to_double (to_double (of_int (bytes_total m + n)) * (25 / 100)))"
    and c: "cost_usd m'
         = to_double (to_double (to_double (to_double (of_int (bytes_total m + n)) * (25 / 100)) * 3)
             / 1000000)"
    by blast
  have t': "tokens_estimated m' = cast_integer (of_int (bytes_total m') * (25 / 100))"
    by (simp only: t b sqlite_quarter [OF r53])
  have fl: "0 \<le> bytes_total m' \<longrightarrow> tokens_estimated m' = \<lfloor>(of_int (bytes_total m') :: rat) * (25 / 100)\<rfloor>"
    unfolding t' floor_quarter using cast_integer_quarter_nonneg by blast
  have c': "cost_usd m' = to_double (of_int (bytes_total m') * (25 / 100) * 3 / 1000000)"
    by (simp only: c b sqlite_three_quarters [OF r])
  have dv: "(cost_usd m' = to_double (of_int (tokens_estimated m') * 3 / 1000000))
      = (4 dvd bytes_total m')"
  proof (cases "4 dvd bytes_total m'")
    case True
    then obtain j where j: "bytes_total m' = 4 * j" by (auto simp: dvd_def)
    have "tokens_estimated m' = j"
      unfolding t' cast_integer_quarter_dvd [OF True] by (simp add: j)
    then have "(of_int (bytes_total m') :: rat) * (25 / 100) * 3 / 1000000
        = of_int (tokens_estimated m') * 3 / 1000000"
      by (simp add: j)
    then have "cost_usd m' = to_double (of_int (tokens_estimated m') * 3 / 1000000)"
      by (simp only: c')
    then show ?thesis using True by simp
  next
    case False
    have "\<bar>bytes_total m'\<bar> < 2 ^ 51" using r b by simp
    from cost_from_tokens_differs [OF this False]
    have "cost_usd m' \<noteq> to_double (of_int (tokens_estimated m') * 3 / 1000000)"
      unfolding c' t' .
    then show ?thesis using False by simp
  qed
  show "\<exists>m'. metrics (snd (add_capture run_id mode n s)) run_id = Some m'
      \<and> bytes_total m' = bytes_total m + n
      \<and> tokens_estimated m' = cast_integer (of_int (bytes_total m') * (25 / 100))
      \<and> (0 \<le> bytes_total m' \<longrightarrow> tokens_estimated m' = \<lfloor>(of_int (bytes_total m') :: rat) * (25 / 100)\<rfloor>)
      \<and> cost_usd m' = to_double (of_int (bytes_total m') * (25 / 100) * 3 / 1000000)
      \<and> ((cost_usd m' = to_double (of_int (tokens_estimated m') * 3 / 1000000))
           = (4 dvd bytes_total m'))"
    using m' b t' fl c' dv by blast
next
  show "map_option (\<lambda>m. (bytes_total m, tokens_estimated m, cost_usd m))
        (metrics (exec (AddCapture ''r1'' Light 1000) (exec (AddCapture ''r1'' Jpeg 4000) started_store)) ''r1'')
      = Some (5000, 1250, to_double (375 / 100000))"
    by (rule two_captures_example)
qed

text \<open>The theorem on a fresh run, for a \<^verbatim>\<open>jpeg\<close> capture of 4000 bytes.\<close>

theorem add_capture_tokens_and_cost_witness:
  "metrics started_store ''r1'' = Some zero_metrics
   \<and> - (2 ^ 63) \<le> bytes_total zero_metrics \<and> bytes_total zero_metrics < 2 ^ 63
   \<and> - (2 ^ 63) \<le> (4000::int) \<and> (4000::int) < 2 ^ 63
   \<and> \<bar>bytes_total zero_metrics + 4000\<bar> < 2 ^ 51
   \<and> map_option (\<lambda>m. (bytes_total m, tokens_estimated m, cost_usd m))
        (metrics (snd (add_capture ''r1'' Jpeg 4000 started_store)) ''r1'')
      = Some (4000, 1000, to_double (3 / 1000))
   \<and> to_double (3 / 1000) = to_double (of_int 1000 * 3 / 1000000)"
proof -
  have h: "metrics started_store ''r1'' = Some zero_metrics
      \<and> - (2 ^ 63) \<le> bytes_total zero_metrics \<and> bytes_total zero_metrics < 2 ^ 63
      \<and> - (2 ^ 63) \<le> (4000::int) \<and> (4000::int) < 2 ^ 63
      \<and> \<bar>bytes_total zero_metrics + 4000\<bar> < 2 ^ 51"
    by (simp add: started_store_metrics zero_metrics_def)
  from add_capture_tokens_and_cost [of started_store "''r1''" zero_metrics 4000 Jpeg] h
  obtain m' where
    "metrics (snd (add_capture ''r1'' Jpeg 4000 started_store)) ''r1'' = Some m'"
    and "bytes_total m' = bytes_total zero_metrics + 4000"
    and "tokens_estimated m' = cast_integer (of_int (bytes_total m') * (25 / 100))"
    and "cost_usd m' = to_double (of_int (bytes_total m') * (25 / 100) * 3 / 1000000)"
    by blast
  then have "map_option (\<lambda>m. (bytes_total m, tokens_estimated m, cost_usd m))
        (metrics (snd (add_capture ''r1'' Jpeg 4000 started_store)) ''r1'')
      = Some (4000, 1000, to_double (3 / 1000))"
    by (simp add: zero_metrics_def cast_integer_def)
  moreover have "to_double (3 / 1000) = to_double (of_int 1000 * 3 / 1000000)"
    by simp
  ultimately show ?thesis using h by blast
qed

text \<open>C3 as stated fails: after a capture of 5 bytes the token count is 1 and the cost is
  the double nearest to 0.00000375, which is not the double nearest to \<open>1 \<times> 3 / 1000000\<close>.\<close>

theorem add_capture_cost_not_from_tokens_counterexample:
  "map_option tokens_estimated (metrics (exec (AddCapture ''r1'' Light 5) started_store) ''r1'') = Some 1
   \<and> map_option cost_usd (metrics (exec (AddCapture ''r1'' Light 5) started_store) ''r1'')
       = Some (to_double (375 / 100000000))
   \<and> to_double (375 / 100000000) \<noteq> to_double (1 * 3 / 1000000)"
  by (simp add: add_capture_def Let_def started_store_metrics zero_metrics_def cast_integer_def
      floor_five_quarters to_double_numeral to_double_five_quarters to_double_fifteen_quarters
      cost_of_five_bytes)

section \<open>Runs: missing rows and the status column\<close>

lemma store_runs_same: "s\<lparr>runs := runs s\<rparr> = s"
  by simp

lemma metrics_fk_empty: "metrics_fk empty_store"
  by (simp add: metrics_fk_def empty_store_def)

lemma metrics_fk_exec: "metrics_fk s \<Longrightarrow> metrics_fk (exec op s)"
proof (cases op)
  case (Start run_id wflow u now rdir)
  assume "metrics_fk s"
  then show ?thesis
    by (cases "start run_id wflow u now rdir s")
       (auto simp: Start metrics_fk_def start_def split: if_splits)
next
  case (Complete run_id st steps now)
  assume "metrics_fk s"
  then show ?thesis
    by (auto simp: Complete metrics_fk_def complete_def Let_def split: option.splits)
next
  case (Progress run_id step steps)
  assume "metrics_fk s"
  then show ?thesis
    by (auto simp: Progress metrics_fk_def progress_def split: option.splits)
next
  case (AddCapture run_id mode n)
  assume "metrics_fk s"
  then show ?thesis
    by (auto simp: AddCapture metrics_fk_def add_capture_def Let_def split: option.splits)
next
  case (AddAction run_id atype)
  assume "metrics_fk s"
  then show ?thesis
    by (auto simp: AddAction metrics_fk_def add_action_def split: option.splits)
qed (simp_all add: metrics_fk_def learn_def fail_def clear_def refresh_def acquire_def acquire_update_def release_def
      Let_def split: option.splits list.splits prod.splits)

lemma started_store_runs:
  "runs started_store =
     [''r1'' \<mapsto> \<lparr>workflow = ''checkout'', simulator_udid = None, status = ''running'',
        start_time = ''t1'', end_time = None, total_steps = 0, current_step = 0,
        run_dir = ''runs/r1''\<rparr>]"
  by (simp add: started_store_def start_def empty_store_def)

text \<open>
  C10. For a run identifier with no row in \<^verbatim>\<open>runs\<close> (and hence, by the foreign key, none in
  \<^verbatim>\<open>metrics\<close>), \<^verbatim>\<open>progress\<close>, \<^verbatim>\<open>complete\<close>, \<^verbatim>\<open>add_capture\<close> and \<^verbatim>\<open>add_action\<close> return their
  usual result and leave the store as it was: none of them raises or reports the missing
  run. (\<open>metrics_fk\<close> holds of the empty store and is kept by every operation:
  \<open>metrics_fk_empty\<close>, \<open>metrics_fk_exec\<close>.)
\<close>

theorem missing_run_is_silent_noop:
  "metrics_fk s \<Longrightarrow> runs s run_id = None \<Longrightarrow>
     progress run_id step steps s = ((run_id, step), s)
   \<and> complete run_id st tsteps now s = ((run_id, st), s)
   \<and> add_capture run_id mode n s = (True, s)
   \<and> add_action run_id atype s = (True, s)"
proof -
  assume fk: "metrics_fk s" and r: "runs s run_id = None"
  then have m: "metrics s run_id = None" by (simp add: metrics_fk_def)
  show ?thesis
    by (simp add: progress_def complete_def add_capture_def add_action_def r m)
qed

text \<open>The theorem on the store that holds run \<open>r1\<close>, for the unknown run \<open>r2\<close>.\<close>

theorem missing_run_is_silent_noop_witness:
  "metrics_fk started_store \<and> runs started_store ''r2'' = None
   \<and> progress ''r2'' 3 (Some 7) started_store = ((''r2'', 3), started_store)
   \<and> complete ''r2'' ''failed'' 7 ''t2'' started_store = ((''r2'', ''failed''), started_store)
   \<and> add_capture ''r2'' Pdf 2048 started_store = (True, started_store)
   \<and> add_action ''r2'' Click started_store = (True, started_store)"
proof -
  have fk: "metrics_fk started_store"
    unfolding started_store_def by (rule metrics_fk_exec) (rule metrics_fk_empty)
  have r: "runs started_store ''r2'' = None"
    by (simp add: started_store_runs)
  show ?thesis
    using fk r missing_run_is_silent_noop [OF fk r, of 3 "Some 7" "''failed''" 7 "''t2''" Pdf 2048 Click]
    by blast
qed

text \<open>
  C2 (amended). The status of an existing run is changed by no operation other than
  \<^verbatim>\<open>complete\<close> on that run (\<^verbatim>\<open>start\<close> with an existing run id raises and changes nothing);
  \<^verbatim>\<open>complete(run_id, status)\<close> sets the status to the one it is given, whatever the status
  was before, so a completed or failed run is not immutable under a later \<^verbatim>\<open>complete\<close>.
\<close>

theorem status_changes_only_by_complete:
  "runs s run_id = Some r \<Longrightarrow>
   map_option status (runs (exec op s) run_id) =
     Some (case op of
             Complete rid st steps now \<Rightarrow> if rid = run_id then st else status r
           | _ \<Rightarrow> status r)"
proof (cases op)
  case (Start rid wflow u now rdir)
  assume "runs s run_id = Some r"
  then show ?thesis
    by (cases "start rid wflow u now rdir s")
       (auto simp: Start start_def split: if_splits)
next
  case (Complete rid st steps now)
  assume "runs s run_id = Some r"
  then show ?thesis
    by (auto simp: Complete complete_def Let_def split: option.splits)
next
  case (Progress rid step steps)
  assume "runs s run_id = Some r"
  then show ?thesis
    by (auto simp: Progress progress_def split: option.splits)
qed (simp_all add: learn_def fail_def clear_def refresh_def acquire_def acquire_update_def release_def
      add_capture_def add_action_def Let_def split: option.splits list.splits prod.splits)

text \<open>The theorem on run \<open>r1\<close>: \<^verbatim>\<open>progress\<close> keeps its status, \<^verbatim>\<open>complete\<close> sets it.\<close>

theorem status_changes_only_by_complete_witness:
  "map_option status (runs started_store ''r1'') = Some ''running''
   \<and> map_option status (runs (exec (Progress ''r1'' 2 None) started_store) ''r1'') = Some ''running''
   \<and> map_option status (runs (exec (Complete ''r1'' ''failed'' 0 ''t2'') started_store) ''r1'')
       = Some ''failed''"
proof -
  let ?r = "\<lparr>workflow = ''checkout'', simulator_udid = None, status = ''running'',
        start_time = ''t1'', end_time = None, total_steps = 0, current_step = 0,
        run_dir = ''runs/r1''\<rparr>"
  have h: "runs started_store ''r1'' = Some ?r"
    by (simp add: started_store_runs)
  show ?thesis
    using h status_changes_only_by_complete [OF h, of "Progress ''r1'' 2 None"]
      status_changes_only_by_complete [OF h, of "Complete ''r1'' ''failed'' 0 ''t2''"]
    by simp
qed

text \<open>C2 as stated fails: run \<open>r1\<close> is completed, and a second \<^verbatim>\<open>complete\<close> makes it failed.\<close>

theorem complete_overwrites_terminal_status_counterexample:
  "map_option status
     (runs (exec (Complete ''r1'' ''completed'' 0 ''t2'') started_store) ''r1'') = Some ''completed''
   \<and> map_option status
     (runs (exec (Complete ''r1'' ''failed'' 0 ''t3'')
              (exec (Complete ''r1'' ''completed'' 0 ''t2'') started_store)) ''r1'') = Some ''failed''"
  by (simp add: complete_def started_store_runs)

section \<open>Binding and releasing a simulator\<close>

lemma find_udid_map:
  "(\<And>x. udid (f x) = udid x) \<Longrightarrow>
   find (\<lambda>r. udid r = u) (map f xs) = map_option f (find (\<lambda>r. udid r = u) xs)"
  by (induction xs) simp_all

lemma find_list_ex: "find P xs = Some x \<Longrightarrow> list_ex P xs"
  by (induction xs) (simp_all split: if_splits)

lemma find_Some_holds: "find P xs = Some x \<Longrightarrow> P x"
  by (induction xs) (simp_all split: if_splits)

lemma sim_row_udid: "sim_row u s = Some x \<Longrightarrow> udid x = u"
  unfolding sim_row_def by (rule find_Some_holds)

lemma sim_row_complete:
  assumes "runs s run_id = Some r" and "simulator_udid r = Some u" and "u \<noteq> []"
  shows "sim_row u (snd (complete run_id st steps now s)) =
     map_option (\<lambda>x. x\<lparr>state := ''available'', current_task := None\<rparr>) (sim_row u s)"
proof -
  obtain c cs where u: "u = c # cs" using assms(3) by (cases u) auto
  let ?f = "\<lambda>r. if udid r = u then r\<lparr>state := ''available'', current_task := None\<rparr> else r"
  have sims: "simulators (snd (complete run_id st steps now s)) = map ?f (simulators s)"
    using assms(1,2) by (simp add: complete_def Let_def u)
  have "find (\<lambda>r. udid r = u) (map ?f (simulators s)) = map_option ?f (find (\<lambda>r. udid r = u) (simulators s))"
    by (rule find_udid_map) simp
  then show ?thesis
    unfolding sim_row_def sims
    by (cases "find (\<lambda>r. udid r = u) (simulators s)") (auto dest: find_Some_holds)
qed

lemma runs_complete:
  "runs s run_id = Some r \<Longrightarrow>
   runs (snd (complete run_id st steps now s)) run_id =
     Some (r\<lparr>status := st, end_time := Some now, total_steps := steps\<rparr>)"
  by (simp add: complete_def Let_def)

lemma start_bound:
  assumes "runs s run_id = None" and "metrics s run_id = None" and "u \<noteq> []"
    and "sim_row u s = Some x"
  shows "\<exists>s1. start run_id wflow (Some u) now rdir s = Inr ((run_id, rdir, ''running''), s1)
     \<and> runs s1 run_id = Some \<lparr>workflow = wflow, simulator_udid = Some u, status = ''running'',
          start_time = now, end_time = None, total_steps = 0, current_step = 0, run_dir = rdir\<rparr>
     \<and> metrics s1 run_id = Some zero_metrics
     \<and> sim_row u s1 = Some (x\<lparr>state := ''busy'', current_task := Some run_id\<rparr>)"
proof -
  obtain c cs where u: "u = c # cs" using assms(3) by (cases u) auto
  have ex: "list_ex (\<lambda>r. udid r = u) (simulators s)"
    using assms(4) unfolding sim_row_def by (rule find_list_ex)
  let ?f = "\<lambda>r. if udid r = u then r\<lparr>state := ''busy'', current_task := Some run_id\<rparr> else r"
  let ?s1 = "s\<lparr>runs := (runs s)(run_id \<mapsto>
                    \<lparr>workflow = wflow, simulator_udid = Some u, status = ''running'',
                     start_time = now, end_time = None, total_steps = 0, current_step = 0,
                     run_dir = rdir\<rparr>),
               metrics := (metrics s)(run_id \<mapsto> zero_metrics),
               simulators := map ?f (simulators s)\<rparr>"
  have st: "start run_id wflow (Some u) now rdir s = Inr ((run_id, rdir, ''running''), ?s1)"
    using assms(1,2) ex by (simp add: start_def u)
  have "find (\<lambda>r. udid r = u) (map ?f (simulators s)) = map_option ?f (find (\<lambda>r. udid r = u) (simulators s))"
    by (rule find_udid_map) simp
  then have row: "sim_row u ?s1 = Some (x\<lparr>state := ''busy'', current_task := Some run_id\<rparr>)"
    using assms(4) sim_row_udid [OF assms(4)] by (simp add: sim_row_def)
  show ?thesis using st row by simp
qed

lemma sim_row_release:
  "sim_row u (snd (release u data now s)) =
     map_option (\<lambda>x. x\<lparr>state := (if list_ex (\<lambda>dev. dev_udid dev = u \<and> dev_state dev = ''Booted'')
                                       (concat (map snd data))
                                  then ''available'' else ''offline''),
                        current_task := None, last_activity := now\<rparr>) (sim_row u s)"
proof -
  let ?ns = "if list_ex (\<lambda>dev. dev_udid dev = u \<and> dev_state dev = ''Booted'') (concat (map snd data))
             then ''available'' else ''offline''"
  let ?f = "\<lambda>r. if udid r = u then r\<lparr>state := ?ns, current_task := None, last_activity := now\<rparr> else r"
  have sims: "simulators (snd (release u data now s)) = map ?f (simulators s)"
    by (simp add: release_def Let_def)
  have "find (\<lambda>r. udid r = u) (map ?f (simulators s)) = map_option ?f (find (\<lambda>r. udid r = u) (simulators s))"
    by (rule find_udid_map) simp
  then show ?thesis
    unfolding sim_row_def sims
    by (cases "find (\<lambda>r. udid r = u) (simulators s)") (auto dest: find_Some_holds)
qed

lemma phone_type: "get_device_type ''iPhone 15 Pro'' = ''iPhone''"
  by (simp add: get_device_type_def startswith_def)

lemma phone_size: "get_screen_size ''iPhone 15 Pro'' = ''393x852''"
  by (simp add: get_screen_size_def startswith_def)

lemma pool_store_simulators:
  "simulators pool_store =
     [\<lparr>udid = ''U1'', name = ''iPhone 15 Pro'', device_type = ''iPhone'', screen_size = ''393x852'',
       pool = ''iPhone-393x852'', state = ''available'', current_task = None,
       last_activity = ''t0''\<rparr>]"
  by (simp add: pool_store_def refresh_def phone_listing_def refresh_device_def upsert_device_def upsert_statement_def python_state_def
      empty_store_def phone_type phone_size Let_def)

lemma pool_store_runs: "runs pool_store = Map.empty" "metrics pool_store = Map.empty"
  by (simp_all add: pool_store_def refresh_def empty_store_def split: prod.splits)

text \<open>
  C8. For a run bound to a simulator (a non-empty udid, as \<^verbatim>\<open>if sim_udid:\<close> tests, naming a
  row of the simulators table, as the foreign key demands), \<^verbatim>\<open>complete\<close> sets the run's
  status, end time and total steps and makes the simulator available with no current task.
  Round trip: \<^verbatim>\<open>start\<close> with the udid succeeds on a fresh run id and leaves the simulator busy
  with the run as its task; \<^verbatim>\<open>complete\<close> then leaves it available with no task and the run
  completed. \<^verbatim>\<open>complete\<close> takes no inventory listing: its result does not depend on one,
  whereas \<^verbatim>\<open>release\<close> with a listing in which the device is not booted leaves it offline.
\<close>

theorem complete_releases_bound_simulator:
  "(runs s run_id = Some r \<and> simulator_udid r = Some u \<and> u \<noteq> [] \<and> sim_row u s = Some x \<longrightarrow>
      fst (complete run_id st steps now s) = (run_id, st)
      \<and> runs (snd (complete run_id st steps now s)) run_id
          = Some (r\<lparr>status := st, end_time := Some now, total_steps := steps\<rparr>)
      \<and> sim_row u (snd (complete run_id st steps now s))
          = Some (x\<lparr>state := ''available'', current_task := None\<rparr>))
   \<and> (runs s run_id = None \<and> metrics s run_id = None \<and> u \<noteq> [] \<and> sim_row u s = Some x \<longrightarrow>
       (\<exists>s1. start run_id wflow (Some u) now rdir s = Inr ((run_id, rdir, ''running''), s1)
          \<and> sim_row u s1 = Some (x\<lparr>state := ''busy'', current_task := Some run_id\<rparr>)
          \<and> sim_row u (snd (complete run_id ''completed'' 0 now' s1))
              = Some (x\<lparr>state := ''available'', current_task := None\<rparr>)
          \<and> map_option status (runs (snd (complete run_id ''completed'' 0 now' s1)) run_id)
              = Some ''completed''))
   \<and> (sim_row u s = Some x
        \<and> \<not> list_ex (\<lambda>dev. dev_udid dev = u \<and> dev_state dev = ''Booted'') (concat (map snd data)) \<longrightarrow>
       map_option state (sim_row u (snd (release u data now s))) = Some ''offline'')"
proof (intro conjI impI)
  assume a: "runs s run_id = Some r \<and> simulator_udid r = Some u \<and> u \<noteq> [] \<and> sim_row u s = Some x"
  show "fst (complete run_id st steps now s) = (run_id, st)"
    by (simp add: complete_def Let_def)
  show "runs (snd (complete run_id st steps now s)) run_id
          = Some (r\<lparr>status := st, end_time := Some now, total_steps := steps\<rparr>)"
    using a by (simp add: runs_complete)
  show "sim_row u (snd (complete run_id st steps now s))
          = Some (x\<lparr>state := ''available'', current_task := None\<rparr>)"
    using a by (simp add: sim_row_complete)
next
  assume b: "runs s run_id = None \<and> metrics s run_id = None \<and> u \<noteq> [] \<and> sim_row u s = Some x"
  then obtain s1 where
    st: "start run_id wflow (Some u) now rdir s = Inr ((run_id, rdir, ''running''), s1)"
    and r1: "runs s1 run_id = Some \<lparr>workflow = wflow, simulator_udid = Some u, status = ''running'',
          start_time = now, end_time = None, total_steps = 0, current_step = 0, run_dir = rdir\<rparr>"
    and x1: "sim_row u s1 = Some (x\<lparr>state := ''busy'', current_task := Some run_id\<rparr>)"
    using start_bound [of s run_id u x wflow now rdir] by blast
  have x2: "sim_row u (snd (complete run_id ''completed'' 0 now' s1))
        = Some (x\<lparr>state := ''available'', current_task := None\<rparr>)"
    using b x1 sim_row_complete [OF r1, of u "''completed''" 0 now'] by simp
  have r2: "map_option status (runs (snd (complete run_id ''completed'' 0 now' s1)) run_id)
        = Some ''completed''"
    by (simp add: runs_complete [OF r1])
  show "\<exists>s1. start run_id wflow (Some u) now rdir s = Inr ((run_id, rdir, ''running''), s1)
          \<and> sim_row u s1 = Some (x\<lparr>state := ''busy'', current_task := Some run_id\<rparr>)
          \<and> sim_row u (snd (complete run_id ''completed'' 0 now' s1))
              = Some (x\<lparr>state := ''available'', current_task := None\<rparr>)
          \<and> map_option status (runs (snd (complete run_id ''completed'' 0 now' s1)) run_id)
              = Some ''completed''"
    using st x1 x2 r2 by blast
next
  assume "sim_row u s = Some x
        \<and> \<not> list_ex (\<lambda>dev. dev_udid dev = u \<and> dev_state dev = ''Booted'') (concat (map snd data))"
  then show "map_option state (sim_row u (snd (release u data now s))) = Some ''offline''"
    by (simp add: sim_row_release)
qed

text \<open>The theorem on the pool with the one booted phone \<open>U1\<close> and the run \<open>r1\<close>.\<close>

theorem complete_releases_bound_simulator_witness:
  "map_option (\<lambda>x. (state x, current_task x)) (sim_row ''U1'' pool_store) = Some (''available'', None)
   \<and> runs pool_store ''r1'' = None \<and> metrics pool_store ''r1'' = None \<and> ''U1'' \<noteq> []
   \<and> map_option (\<lambda>x. (state x, current_task x)) (sim_row ''U1'' bound_store)
       = Some (''busy'', Some ''r1'')
   \<and> map_option (\<lambda>x. (state x, current_task x))
        (sim_row ''U1'' (snd (complete ''r1'' ''completed'' 0 ''t2'' bound_store)))
       = Some (''available'', None)
   \<and> map_option status (runs (snd (complete ''r1'' ''completed'' 0 ''t2'' bound_store)) ''r1'')
       = Some ''completed''
   \<and> list_all (\<lambda>dev. \<not> (dev_udid dev = ''U1'' \<and> dev_state dev = ''Booted''))
        (concat (map snd shutdown_listing))
   \<and> map_option state (sim_row ''U1'' (snd (release ''U1'' shutdown_listing ''t2'' bound_store)))
       = Some ''offline''"
proof -
  let ?x = "\<lparr>udid = ''U1'', name = ''iPhone 15 Pro'', device_type = ''iPhone'', screen_size = ''393x852'',
       pool = ''iPhone-393x852'', state = ''available'', current_task = None,
       last_activity = ''t0''\<rparr>"
  have x: "sim_row ''U1'' pool_store = Some ?x"
    by (simp add: sim_row_def pool_store_simulators)
  have r: "runs pool_store ''r1'' = None" and m: "metrics pool_store ''r1'' = None"
    by (simp_all add: pool_store_runs)
  have u: "''U1'' \<noteq> []" by simp
  note tb = complete_releases_bound_simulator
    [of pool_store "''r1''" _ "''U1''" ?x _ _ "''t1''" "''checkout''" "''runs/r1''" "''t2''" _]
  from tb x r m u obtain s1 where
    st: "start ''r1'' ''checkout'' (Some ''U1'') ''t1'' ''runs/r1'' pool_store
          = Inr ((''r1'', ''runs/r1'', ''running''), s1)"
    and x1: "sim_row ''U1'' s1 = Some (?x\<lparr>state := ''busy'', current_task := Some ''r1''\<rparr>)"
    and x2: "sim_row ''U1'' (snd (complete ''r1'' ''completed'' 0 ''t2'' s1))
        = Some (?x\<lparr>state := ''available'', current_task := None\<rparr>)"
    and r2: "map_option status (runs (snd (complete ''r1'' ''completed'' 0 ''t2'' s1)) ''r1'')
        = Some ''completed''"
    by blast
  have b: "bound_store = s1"
    by (simp add: bound_store_def st)
  have la: "list_all (\<lambda>dev. \<not> (dev_udid dev = ''U1'' \<and> dev_state dev = ''Booted''))
        (concat (map snd shutdown_listing))"
    by (simp add: shutdown_listing_def)
  then have le: "\<not> list_ex (\<lambda>dev. dev_udid dev = ''U1'' \<and> dev_state dev = ''Booted'')
        (concat (map snd shutdown_listing))"
    by (simp add: shutdown_listing_def)
  note tc = complete_releases_bound_simulator
    [of bound_store _ _ "''U1''" "?x\<lparr>state := ''busy'', current_task := Some ''r1''\<rparr>"
        _ _ "''t2''" _ _ _ shutdown_listing]
  have off: "map_option state (sim_row ''U1'' (snd (release ''U1'' shutdown_listing ''t2'' bound_store)))
       = Some ''offline''"
    using tc x1 le unfolding b by blast
  show ?thesis
    using x r m u x1 x2 r2 la off unfolding b by simp
qed

section \<open>Refresh and the busy state\<close>

lemma find_append_other: "\<not> P y \<Longrightarrow> find P (xs @ [y]) = find P xs"
  by (induction xs) simp_all

lemma upsert_other:
  assumes "u \<noteq> dev_udid dev"
  shows "find (\<lambda>r. udid r = u) (upsert_device now dev sims) = find (\<lambda>r. udid r = u) sims"
proof (cases "find (\<lambda>r. udid r = dev_udid dev) sims")
  case None
  then show ?thesis using assms
    by (simp add: upsert_device_def upsert_statement_def python_state_def Let_def find_append_other)
next
  case (Some r0)
  let ?f = "\<lambda>r. if udid r = dev_udid dev
       then r\<lparr>name := dev_name dev, device_type := get_device_type (dev_name dev),
              screen_size := get_screen_size (dev_name dev),
              pool := get_device_type (dev_name dev) @ ''-'' @ get_screen_size (dev_name dev),
              state := (if current_task r \<noteq> None then ''busy''
                        else if truthy (current_task r0) then ''busy''
                        else if dev_state dev = ''Booted'' then ''available'' else ''offline''),
              last_activity := now\<rparr>
       else r"
  have up: "upsert_device now dev sims = map ?f sims"
    using Some by (simp add: upsert_device_def upsert_statement_def python_state_def Let_def)
  have "find (\<lambda>r. udid r = u) (map ?f sims) = map_option ?f (find (\<lambda>r. udid r = u) sims)"
    by (rule find_udid_map) simp
  also have "\<dots> = find (\<lambda>r. udid r = u) sims"
    using assms by (cases "find (\<lambda>r. udid r = u) sims") (auto dest: find_Some_holds)
  finally show ?thesis unfolding up .
qed

lemma upsert_new:
  assumes "find (\<lambda>r. udid r = dev_udid dev) sims = None"
  shows "\<exists>r'. find (\<lambda>r. udid r = dev_udid dev) (upsert_device now dev sims) = Some r'
     \<and> current_task r' = None
     \<and> state r' = (if dev_state dev = ''Booted'' then ''available'' else ''offline'')"
proof -
  let ?new = "\<lparr>udid = dev_udid dev, name = dev_name dev,
      device_type = get_device_type (dev_name dev), screen_size = get_screen_size (dev_name dev),
      pool = get_device_type (dev_name dev) @ ''-'' @ get_screen_size (dev_name dev),
      state = (if dev_state dev = ''Booted'' then ''available'' else ''offline''),
      current_task = None, last_activity = now\<rparr>"
  have up: "upsert_device now dev sims = sims @ [?new]"
    using assms by (simp add: upsert_device_def upsert_statement_def python_state_def Let_def)
  have "find (\<lambda>r. udid r = dev_udid dev) (sims @ [?new]) = Some ?new"
    by (rule find_append_last [OF assms]) simp
  then show ?thesis unfolding up by simp
qed

lemma upsert_found:
  assumes "find (\<lambda>r. udid r = dev_udid dev) sims = Some r"
  shows "\<exists>r'. find (\<lambda>r. udid r = dev_udid dev) (upsert_device now dev sims) = Some r'
     \<and> current_task r' = current_task r
     \<and> state r' = (if current_task r \<noteq> None then ''busy''
                    else if dev_state dev = ''Booted'' then ''available'' else ''offline'')"
proof -
  let ?f = "\<lambda>x. if udid x = dev_udid dev
       then x\<lparr>name := dev_name dev, device_type := get_device_type (dev_name dev),
              screen_size := get_screen_size (dev_name dev),
              pool := get_device_type (dev_name dev) @ ''-'' @ get_screen_size (dev_name dev),
              state := (if current_task x \<noteq> None then ''busy''
                        else if truthy (current_task r) then ''busy''
                        else if dev_state dev = ''Booted'' then ''available'' else ''offline''),
              last_activity := now\<rparr>
       else x"
  have up: "upsert_device now dev sims = map ?f sims"
    using assms by (simp add: upsert_device_def upsert_statement_def python_state_def Let_def)
  have "find (\<lambda>r. udid r = dev_udid dev) (map ?f sims)
      = map_option ?f (find (\<lambda>r. udid r = dev_udid dev) sims)"
    by (rule find_udid_map) simp
  then have f: "find (\<lambda>r. udid r = dev_udid dev) (upsert_device now dev sims) = Some (?f r)"
    unfolding up using assms by simp
  have k: "udid r = dev_udid dev" using assms by (auto dest: find_Some_holds)
  have t: "current_task r = None \<Longrightarrow> \<not> truthy (current_task r)" by simp
  show ?thesis unfolding f using k t by auto
qed

lemma fst_refresh_device:
  "fst (refresh_device now dev acc) = upsert_device now dev (fst acc)"
  by (cases acc) (simp add: refresh_device_def Let_def)

lemma fst_refresh_devices:
  "fst (refresh_devices now devs acc) = foldl (\<lambda>sims dev. upsert_device now dev sims) (fst acc) devs"
  by (induction devs arbitrary: acc) (simp_all add: fst_refresh_device)

lemma fst_refresh_runtimes:
  "fst (refresh_runtimes now data acc) =
     foldl (\<lambda>sims dev. upsert_device now dev sims) (fst acc) (concat (map snd data))"
proof (induction data arbitrary: acc)
  case Nil
  show ?case by simp
next
  case (Cons p data)
  obtain runtime devs where p: "p = (runtime, devs)" by (cases p)
  show ?case
    by (simp add: p Cons.IH fst_refresh_devices)
qed

lemma simulators_refresh:
  "simulators (snd (refresh data now s)) =
     foldl (\<lambda>sims dev. upsert_device now dev sims) (simulators s) (concat (map snd data))"
proof -
  obtain sims count pools where
    r: "refresh_runtimes now data (simulators s, 0, Map.empty) = (sims, count, pools)"
    by (cases "refresh_runtimes now data (simulators s, 0, Map.empty)")
  have "fst (refresh_runtimes now data (simulators s, 0, Map.empty)) =
     foldl (\<lambda>sims dev. upsert_device now dev sims) (simulators s) (concat (map snd data))"
    by (simp add: fst_refresh_runtimes)
  then show ?thesis by (simp add: refresh_def r)
qed

lemma refresh_frame:
  "runs (snd (refresh data now s)) = runs s"
  "metrics (snd (refresh data now s)) = metrics s"
  "selectors (snd (refresh data now s)) = selectors s"
  by (simp_all add: refresh_def split: prod.splits)

text \<open>A busy row with a task stays so through one upsert, hence through the loop.\<close>

lemma upsert_keeps_busy:
  assumes "find (\<lambda>r. udid r = u) sims = Some r" and "current_task r \<noteq> None" and "state r = ''busy''"
  shows "\<exists>r'. find (\<lambda>r. udid r = u) (upsert_device now dev sims) = Some r'
     \<and> current_task r' = current_task r \<and> state r' = ''busy''"
proof (cases "u = dev_udid dev")
  case True
  then show ?thesis using upsert_found [of dev sims r now] assms by auto
next
  case False
  then show ?thesis using upsert_other [of u dev now sims] assms by simp
qed

lemma foldl_upsert_keeps_busy:
  assumes "find (\<lambda>r. udid r = u) sims = Some r" and "current_task r \<noteq> None" and "state r = ''busy''"
  shows "\<exists>r'. find (\<lambda>r. udid r = u) (foldl (\<lambda>sims dev. upsert_device now dev sims) sims devs) = Some r'
     \<and> current_task r' = current_task r \<and> state r' = ''busy''"
  using assms
proof (induction devs arbitrary: sims r)
  case Nil
  then show ?case by simp
next
  case (Cons dev devs)
  from upsert_keeps_busy [OF Cons.prems, of now dev] obtain r1 where
    r1: "find (\<lambda>r. udid r = u) (upsert_device now dev sims) = Some r1"
    and t1: "current_task r1 = current_task r" and s1: "state r1 = ''busy''"
    by blast
  have "current_task r1 \<noteq> None" using t1 Cons.prems(2) by simp
  from Cons.IH [OF r1 this s1] show ?case using t1 by simp
qed

lemma bound_store_row:
  "sim_row ''U1'' bound_store =
     Some \<lparr>udid = ''U1'', name = ''iPhone 15 Pro'', device_type = ''iPhone'', screen_size = ''393x852'',
       pool = ''iPhone-393x852'', state = ''busy'', current_task = Some ''r1'',
       last_activity = ''t0''\<rparr>"
  by (simp add: sim_row_def bound_store_def start_def pool_store_simulators pool_store_runs)

text \<open>
  C7. A simulator row that has a current task and is busy is still busy, with the same
  task, after \<^verbatim>\<open>refresh\<close>, whatever the inventory lists: the device may be reported as
  shut down, or not be listed at all.
\<close>

theorem refresh_keeps_busy:
  "sim_row u s = Some r \<Longrightarrow> current_task r \<noteq> None \<Longrightarrow> state r = ''busy'' \<Longrightarrow>
   \<exists>r'. sim_row u (snd (refresh data now s)) = Some r'
      \<and> state r' = ''busy'' \<and> current_task r' = current_task r"
  unfolding sim_row_def simulators_refresh
  using foldl_upsert_keeps_busy [of u "simulators s" r now "concat (map snd data)"] by blast

text \<open>The theorem on the phone \<open>U1\<close> bound to run \<open>r1\<close>, refreshed from a listing that
  reports it as shut down.\<close>

theorem refresh_keeps_busy_witness:
  "map_option (\<lambda>x. (state x, current_task x)) (sim_row ''U1'' bound_store)
     = Some (''busy'', Some ''r1'')
   \<and> map_option (\<lambda>x. (state x, current_task x))
        (sim_row ''U1'' (snd (refresh shutdown_listing ''t2'' bound_store)))
     = Some (''busy'', Some ''r1'')"
proof -
  let ?r = "\<lparr>udid = ''U1'', name = ''iPhone 15 Pro'', device_type = ''iPhone'', screen_size = ''393x852'',
       pool = ''iPhone-393x852'', state = ''busy'', current_task = Some ''r1'',
       last_activity = ''t0''\<rparr>"
  have row: "sim_row ''U1'' bound_store = Some ?r" by (rule bound_store_row)
  have t: "current_task ?r \<noteq> None" and b: "state ?r = ''busy''" by simp_all
  from refresh_keeps_busy [OF row t b, of shutdown_listing "''t2''"] obtain r' where
    "sim_row ''U1'' (snd (refresh shutdown_listing ''t2'' bound_store)) = Some r'"
    and "state r' = ''busy''" and "current_task r' = current_task ?r"
    by blast
  then show ?thesis using row by simp
qed

section \<open>The invariant busy iff task\<close>

lemma upsert_inv:
  assumes "case find (\<lambda>r. udid r = u) sims of None \<Rightarrow> True | Some r \<Rightarrow> busy_iff_task r"
  shows "case find (\<lambda>r. udid r = u) (upsert_device now dev sims) of
           None \<Rightarrow> True | Some r \<Rightarrow> busy_iff_task r"
proof (cases "u = dev_udid dev")
  case False
  then show ?thesis using assms by (simp add: upsert_other)
next
  case True
  show ?thesis
  proof (cases "find (\<lambda>r. udid r = dev_udid dev) sims")
    case None
    from upsert_new [OF None, of now] show ?thesis
      unfolding True by (auto simp: busy_iff_task_def)
  next
    case (Some r)
    from upsert_found [OF Some, of now] show ?thesis
      unfolding True by (auto simp: busy_iff_task_def)
  qed
qed

lemma foldl_upsert_inv:
  "(case find (\<lambda>r. udid r = u) sims of None \<Rightarrow> True | Some r \<Rightarrow> busy_iff_task r) \<Longrightarrow>
   (case find (\<lambda>r. udid r = u) (foldl (\<lambda>sims dev. upsert_device now dev sims) sims devs) of
      None \<Rightarrow> True | Some r \<Rightarrow> busy_iff_task r)"
  by (induction devs arbitrary: sims) (simp_all add: upsert_inv)

lemma sim_inv_map:
  assumes "simulators s' = map f (simulators s)"
    and "\<And>x. udid (f x) = udid x"
    and "\<And>x. busy_iff_task x \<Longrightarrow> busy_iff_task (f x)"
    and "sim_inv u s"
  shows "sim_inv u s'"
proof -
  have "find (\<lambda>r. udid r = u) (map f (simulators s)) = map_option f (find (\<lambda>r. udid r = u) (simulators s))"
    by (rule find_udid_map) (rule assms(2))
  then show ?thesis
    using assms(3,4) unfolding sim_inv_def sim_row_def assms(1)
    by (cases "find (\<lambda>r. udid r = u) (simulators s)") simp_all
qed

lemma sim_inv_same: "simulators s' = simulators s \<Longrightarrow> sim_inv u s \<Longrightarrow> sim_inv u s'"
  by (simp add: sim_inv_def sim_row_def)

lemma sim_inv_refresh: "sim_inv u s \<Longrightarrow> sim_inv u (snd (refresh data now s))"
  unfolding sim_inv_def sim_row_def simulators_refresh by (rule foldl_upsert_inv)

lemma sim_inv_acquire: "sim_inv u s \<Longrightarrow> sim_inv u (snd (acquire pl task_id now s))"
proof (cases "acquire_select pl s")
  case None
  assume "sim_inv u s"
  then show ?thesis by (simp add: acquire_def None)
next
  case (Some u')
  assume a: "sim_inv u s"
  show ?thesis
    unfolding acquire_def Some
    by (rule sim_inv_map [OF _ _ _ a, where f = "\<lambda>r. if udid r = u'
          then r\<lparr>state := ''busy'', current_task := Some task_id, last_activity := now\<rparr> else r"])
       (simp_all add: acquire_update_def busy_iff_task_def)
qed

lemma sim_inv_release: "sim_inv u s \<Longrightarrow> sim_inv u (snd (release u' data now s))"
proof -
  assume a: "sim_inv u s"
  let ?ns = "if list_ex (\<lambda>dev. dev_udid dev = u' \<and> dev_state dev = ''Booted'') (concat (map snd data))
             then ''available'' else ''offline''"
  show ?thesis
    by (rule sim_inv_map [OF _ _ _ a, where f = "\<lambda>r. if udid r = u'
          then r\<lparr>state := ?ns, current_task := None, last_activity := now\<rparr> else r"])
       (simp_all add: release_def Let_def busy_iff_task_def)
qed

lemma sim_inv_complete: "sim_inv u s \<Longrightarrow> sim_inv u (snd (complete run_id st steps now s))"
proof -
  assume a: "sim_inv u s"
  let ?su = "case runs s run_id of Some row \<Rightarrow> simulator_udid row | None \<Rightarrow> None"
  show ?thesis
  proof (cases "\<exists>c cs. ?su = Some (c # cs)")
    case True
    then obtain c cs where su: "?su = Some (c # cs)" by blast
    show ?thesis
      by (rule sim_inv_map [OF _ _ _ a, where f = "\<lambda>r. if udid r = c # cs
            then r\<lparr>state := ''available'', current_task := None\<rparr> else r"])
         (simp_all add: complete_def Let_def su busy_iff_task_def)
  next
    case False
    then have "simulators (snd (complete run_id st steps now s)) = simulators s"
      by (auto simp: complete_def Let_def split: option.splits list.splits)
    then show ?thesis using a by (rule sim_inv_same)
  qed
qed

lemma sim_inv_start:
  "sim_inv u s \<Longrightarrow> start run_id wflow su now rdir s = Inr res \<Longrightarrow> sim_inv u (snd res)"
proof -
  assume a: "sim_inv u s" and st: "start run_id wflow su now rdir s = Inr res"
  show ?thesis
  proof (cases "\<exists>c cs. su = Some (c # cs)")
    case True
    then obtain c cs where su: "su = Some (c # cs)" by blast
    show ?thesis
      by (rule sim_inv_map [OF _ _ _ a, where f = "\<lambda>r. if udid r = c # cs
            then r\<lparr>state := ''busy'', current_task := Some run_id\<rparr> else r"])
         (use st in \<open>auto simp: start_def su busy_iff_task_def split: if_splits\<close>)
  next
    case False
    then have "simulators (snd res) = simulators s"
      using st by (auto simp: start_def split: if_splits option.splits list.splits)
    then show ?thesis using a by (rule sim_inv_same)
  qed
qed

lemma find_distinct_udid:
  "distinct (map udid xs) \<Longrightarrow> r \<in> set xs \<Longrightarrow> find (\<lambda>x. udid x = udid r) xs = Some r"
  by (induction xs) (auto simp: image_iff)

lemma sim_inv_all_rows:
  "simulators_pk s \<Longrightarrow> (\<forall>u. sim_inv u s) = (\<forall>r\<in>set (simulators s). busy_iff_task r)"
proof
  assume pk: "simulators_pk s" and a: "\<forall>u. sim_inv u s"
  show "\<forall>r\<in>set (simulators s). busy_iff_task r"
  proof
    fix r assume r: "r \<in> set (simulators s)"
    have "sim_row (udid r) s = Some r"
      using pk r unfolding simulators_pk_def sim_row_def by (rule find_distinct_udid)
    then show "busy_iff_task r" using a by (simp add: sim_inv_def split: option.splits)
  qed
next
  assume a: "\<forall>r\<in>set (simulators s). busy_iff_task r"
  show "\<forall>u. sim_inv u s"
  proof
    fix u
    show "sim_inv u s"
      using a by (auto simp: sim_inv_def sim_row_def find_Some_iff split: option.splits)
  qed
qed

lemma map_udid_if:
  "(\<And>x. udid (g x) = udid x) \<Longrightarrow> udid \<circ> (\<lambda>r. if Q r then g r else r) = udid"
  by (auto simp: fun_eq_iff)

lemma upsert_pk: "distinct (map udid sims) \<Longrightarrow> distinct (map udid (upsert_device now dev sims))"
proof (cases "find (\<lambda>r. udid r = dev_udid dev) sims")
  case None
  assume d: "distinct (map udid sims)"
  have "dev_udid dev \<notin> udid ` set sims"
    using None by (auto simp: find_None_iff)
  then show ?thesis using d None by (simp add: upsert_device_def upsert_statement_def python_state_def Let_def)
next
  case (Some r)
  assume d: "distinct (map udid sims)"
  show ?thesis using d Some by (simp add: upsert_device_def upsert_statement_def python_state_def Let_def map_udid_if)
qed

lemma foldl_upsert_pk:
  "distinct (map udid sims) \<Longrightarrow>
   distinct (map udid (foldl (\<lambda>sims dev. upsert_device now dev sims) sims devs))"
  by (induction devs arbitrary: sims) (simp_all add: upsert_pk)

lemma simulators_pk_exec: "simulators_pk s \<Longrightarrow> simulators_pk (exec op s)"
proof (cases op)
  case (Refresh data now)
  assume "simulators_pk s"
  then show ?thesis
    by (simp add: Refresh simulators_pk_def simulators_refresh foldl_upsert_pk)
next
  case (Start run_id wflow su now rdir)
  assume "simulators_pk s"
  then show ?thesis
    by (cases "start run_id wflow su now rdir s")
       (auto simp: Start simulators_pk_def start_def map_udid_if split: if_splits option.splits list.splits)
qed (auto simp: simulators_pk_def learn_def fail_def clear_def acquire_def acquire_update_def
      release_def complete_def progress_def add_capture_def add_action_def Let_def map_udid_if
      split: option.splits list.splits)

text \<open>
  Run one at a time, every operation keeps the invariant of every udid: if the simulator
  row of that udid has state busy exactly when its current task is set, then so it has
  after the operation, and a row that \<^verbatim>\<open>refresh\<close> inserts satisfies it too. (With the
  primary key, which every operation keeps, this is the invariant of every row of the
  table: \<open>sim_inv_all_rows\<close>, \<open>simulators_pk_exec\<close>.)
\<close>

lemma sim_inv_exec:
  "sim_inv u s \<Longrightarrow> sim_inv u (exec op s)"
proof (cases op)
  case (Start run_id wflow su now rdir)
  assume a: "sim_inv u s"
  show ?thesis
    by (cases "start run_id wflow su now rdir s")
       (simp_all add: Start a sim_inv_start [OF a])
qed (simp_all add: sim_inv_refresh sim_inv_acquire sim_inv_release sim_inv_complete,
     (erule sim_inv_same [rotated],
      simp add: learn_def fail_def clear_def progress_def add_capture_def add_action_def Let_def
        split: option.splits list.splits)+)

text \<open>The statements of a refresh, run with no other connection in between, are
  \<^verbatim>\<open>refresh\<close>.\<close>

lemma refresh_steps_alone:
  "beside_refresh now (replicate (2 * length devs + 1) Refresher) (Selecting tx devs, s)
     = (Committed, s\<lparr>simulators := foldl (\<lambda>sims dev. upsert_device now dev sims) (simulators s) devs\<rparr>)"
proof (induction devs arbitrary: tx s)
  case Nil
  then show ?case by simp
next
  case (Cons dev devs)
  have e: "replicate (2 * length (dev # devs) + 1) Refresher
      = Refresher # Refresher # replicate (2 * length devs + 1) Refresher"
    by simp
  show ?case
    unfolding e
    by (simp only: beside_refresh.simps refresh_step.simps Cons.IH foldl_Cons upsert_device_def)
       simp
qed

lemma refresh_steps_refresh:
  "beside_refresh now (replicate (2 * length (concat (map snd data)) + 1) Refresher)
     (Selecting False (concat (map snd data)), s)
   = (Committed, exec (Refresh data now) s)"
proof -
  have "snd (refresh data now s)
      = s\<lparr>simulators := foldl (\<lambda>sims dev. upsert_device now dev sims) (simulators s)
            (concat (map snd data))\<rparr>"
    using simulators_refresh [of data now s] by (simp add: refresh_def split: prod.splits)
  then show ?thesis by (simp only: refresh_steps_alone exec.simps)
qed

lemma bound_store_tables:
  "simulators bound_store =
     [\<lparr>udid = ''U1'', name = ''iPhone 15 Pro'', device_type = ''iPhone'', screen_size = ''393x852'',
       pool = ''iPhone-393x852'', state = ''busy'', current_task = Some ''r1'',
       last_activity = ''t0''\<rparr>]"
  "runs bound_store ''r1'' =
     Some \<lparr>workflow = ''checkout'', simulator_udid = Some ''U1'', status = ''running'',
       start_time = ''t1'', end_time = None, total_steps = 0, current_step = 0,
       run_dir = ''runs/r1''\<rparr>"
  by (simp_all add: bound_store_def start_def pool_store_simulators pool_store_runs)

text \<open>
  C4. Every operation is required to keep, for every simulator row, state busy exactly
  when the current task is set. \<^verbatim>\<open>refresh\<close> reads \<^verbatim>\<open>current_task\<close> in one statement and
  writes the state in another, and the \<^verbatim>\<open>SELECT\<close> for the first listed device runs before
  its connection has begun a transaction. On the store where the phone \<open>U1\<close> is busy with
  run \<open>r1\<close> the invariant holds. In the schedule where a refresh of the listing of \<open>U1\<close>
  runs its \<^verbatim>\<open>SELECT\<close>, then another connection runs \<^verbatim>\<open>complete\<close> of \<open>r1\<close>, then the refresh
  runs its upsert and commits, the refresh computes \<open>busy\<close> from the task it read, the row
  it then updates has no task, so the \<^verbatim>\<open>CASE\<close> of the upsert takes the \<open>busy\<close> that Python
  passed: the row ends busy with no current task, and the invariant is broken. The
  schedules that run \<^verbatim>\<open>complete\<close> before the refresh, or after it, end with the row
  available with no task.
\<close>

theorem refresh_beside_complete_breaks_busy_iff_task:
  "sim_inv ''U1'' bound_store
   \<and> map_option (\<lambda>x. (state x, current_task x)) (sim_row ''U1'' bound_store)
       = Some (''busy'', Some ''r1'')
   \<and> fst (beside_refresh ''t3''
        [Refresher, Other (Complete ''r1'' ''completed'' 0 ''t2''), Refresher, Refresher]
        (Selecting False (concat (map snd phone_listing)), bound_store))
       = Committed
   \<and> map_option (\<lambda>x. (state x, current_task x))
        (sim_row ''U1'' (snd (beside_refresh ''t3''
           [Refresher, Other (Complete ''r1'' ''completed'' 0 ''t2''), Refresher, Refresher]
           (Selecting False (concat (map snd phone_listing)), bound_store))))
       = Some (''busy'', None)
   \<and> \<not> sim_inv ''U1'' (snd (beside_refresh ''t3''
           [Refresher, Other (Complete ''r1'' ''completed'' 0 ''t2''), Refresher, Refresher]
           (Selecting False (concat (map snd phone_listing)), bound_store)))
   \<and> map_option (\<lambda>x. (state x, current_task x))
        (sim_row ''U1'' (snd (beside_refresh ''t3''
           [Other (Complete ''r1'' ''completed'' 0 ''t2''), Refresher, Refresher, Refresher]
           (Selecting False (concat (map snd phone_listing)), bound_store))))
       = Some (''available'', None)
   \<and> map_option (\<lambda>x. (state x, current_task x))
        (sim_row ''U1'' (snd (beside_refresh ''t3''
           [Refresher, Refresher, Refresher, Other (Complete ''r1'' ''completed'' 0 ''t2'')]
           (Selecting False (concat (map snd phone_listing)), bound_store))))
       = Some (''available'', None)"
  by (simp add: phone_listing_def bound_store_tables python_state_def upsert_statement_def
      complete_def Let_def sim_row_def sim_inv_def busy_iff_task_def phone_type phone_size)

section \<open>Acquire under two callers\<close>

text \<open>
  A caller that runs its two statements without interruption is \<^verbatim>\<open>acquire\<close>
  (\<open>acquire_two_steps\<close>), and two such calls one after the other on a pool with exactly one
  available simulator give the udid to the first and none to the second
  (\<open>acquire_serial_exclusive\<close>).
\<close>

lemma acquire_two_steps:
  "acquire_step (fst (acquire_step (Ready pl task_id now) s)) (snd (acquire_step (Ready pl task_id now) s))
     = (Returned (fst (acquire pl task_id now s)), snd (acquire pl task_id now s))"
  by (cases "acquire_select pl s") (simp_all add: acquire_def)

lemma find_filter_single:
  "filter P xs = [r] \<Longrightarrow> find P xs = Some r"
  by (induction xs) (auto split: if_splits simp: filter_empty_conv find_None_iff)

lemma filter_empty_find: "filter P xs = [] \<Longrightarrow> find P xs = None"
  by (induction xs) (simp_all split: if_splits)

lemma acquire_serial_exclusive:
  assumes "filter (\<lambda>r. pool r = pl \<and> state r = ''available'') (simulators s) = [r]"
  shows "fst (acquire pl t1 n1 s) = Some (udid r)
     \<and> fst (acquire pl t2 n2 (snd (acquire pl t1 n1 s))) = None"
proof -
  let ?P = "\<lambda>r. pool r = pl \<and> state r = ''available''"
  have f: "find ?P (simulators s) = Some r" using assms by (rule find_filter_single)
  then have sel: "acquire_select pl s = Some (udid r)" by (simp add: acquire_select_def)
  have 1: "acquire pl t1 n1 s = (Some (udid r), acquire_update t1 n1 (udid r) s)"
    by (simp add: acquire_def sel)
  have only: "\<And>x. x \<in> set (simulators s) \<Longrightarrow> ?P x \<Longrightarrow> x = r"
  proof -
    fix x assume "x \<in> set (simulators s)" and "?P x"
    then have "x \<in> set (filter ?P (simulators s))" by simp
    then show "x = r" unfolding assms by simp
  qed
  have emp: "filter ?P (map (\<lambda>x. if udid x = udid r
          then x\<lparr>state := ''busy'', current_task := Some t1, last_activity := n1\<rparr> else x)
          (simulators s)) = []"
    unfolding filter_empty_conv
  proof (rule ballI)
    fix y assume "y \<in> set (map (\<lambda>x. if udid x = udid r
          then x\<lparr>state := ''busy'', current_task := Some t1, last_activity := n1\<rparr> else x)
          (simulators s))"
    then obtain x where x: "x \<in> set (simulators s)"
      and y: "y = (if udid x = udid r
          then x\<lparr>state := ''busy'', current_task := Some t1, last_activity := n1\<rparr> else x)"
      by auto
    show "\<not> ?P y"
    proof (cases "udid x = udid r")
      case True
      then show ?thesis using y by simp
    next
      case False
      then have "x \<noteq> r" by auto
      then have "\<not> ?P x" using only [OF x] by blast
      then show ?thesis using y False by simp
    qed
  qed
  have sims: "simulators (acquire_update t1 n1 (udid r) s) =
      map (\<lambda>x. if udid x = udid r
          then x\<lparr>state := ''busy'', current_task := Some t1, last_activity := n1\<rparr> else x)
          (simulators s)"
    by (simp add: acquire_update_def)
  have "find ?P (simulators (acquire_update t1 n1 (udid r) s)) = None"
    unfolding sims by (rule filter_empty_find [OF emp])
  then have 2: "fst (acquire pl t2 n2 (acquire_update t1 n1 (udid r) s)) = None"
    by (simp add: acquire_def acquire_select_def)
  show ?thesis using 1 2 by simp
qed

lemma pool_store_one_available:
  "filter (\<lambda>r. pool r = ''iPhone-393x852'' \<and> state r = ''available'') (simulators pool_store) =
     [\<lparr>udid = ''U1'', name = ''iPhone 15 Pro'', device_type = ''iPhone'', screen_size = ''393x852'',
       pool = ''iPhone-393x852'', state = ''available'', current_task = None,
       last_activity = ''t0''\<rparr>]"
  by (simp add: pool_store_simulators)

lemma pool_store_select: "acquire_select ''iPhone-393x852'' pool_store = Some ''U1''"
  by (simp add: acquire_select_def pool_store_simulators)

text \<open>
  C1. Two concurrent \<^verbatim>\<open>acquire\<close> calls on a pool with exactly one available simulator are
  required never to receive the same simulator, the check-and-set being a single
  conditional update. \<^verbatim>\<open>acquire\<close> reads and writes in two statements, and its \<^verbatim>\<open>UPDATE\<close> does
  not test the state again: on the pool with the one available phone \<open>U1\<close>, the schedule in
  which both callers run their \<^verbatim>\<open>SELECT\<close> before either runs its \<^verbatim>\<open>UPDATE\<close> returns \<open>U1\<close> to
  both, and the row ends busy with the second caller's task. The schedule that runs the
  callers one after the other returns \<open>U1\<close> and none.
\<close>

theorem concurrent_acquire_same_simulator:
  "length (filter (\<lambda>r. pool r = ''iPhone-393x852'' \<and> state r = ''available'')
     (simulators pool_store)) = 1
   \<and> fst (interleave [First, Second, First, Second]
        (Ready ''iPhone-393x852'' ''task1'' ''n1'', Ready ''iPhone-393x852'' ''task2'' ''n2'', pool_store))
       = Returned (Some ''U1'')
   \<and> fst (snd (interleave [First, Second, First, Second]
        (Ready ''iPhone-393x852'' ''task1'' ''n1'', Ready ''iPhone-393x852'' ''task2'' ''n2'', pool_store)))
       = Returned (Some ''U1'')
   \<and> map_option (\<lambda>x. (state x, current_task x))
        (sim_row ''U1'' (snd (snd (interleave [First, Second, First, Second]
           (Ready ''iPhone-393x852'' ''task1'' ''n1'', Ready ''iPhone-393x852'' ''task2'' ''n2'',
            pool_store)))))
       = Some (''busy'', Some ''task2'')
   \<and> fst (interleave [First, First, Second, Second]
        (Ready ''iPhone-393x852'' ''task1'' ''n1'', Ready ''iPhone-393x852'' ''task2'' ''n2'', pool_store))
       = Returned (Some ''U1'')
   \<and> fst (snd (interleave [First, First, Second, Second]
        (Ready ''iPhone-393x852'' ''task1'' ''n1'', Ready ''iPhone-393x852'' ''task2'' ''n2'', pool_store)))
       = Returned None"
  by (simp add: pool_store_select pool_store_simulators acquire_update_def acquire_select_def
      sim_row_def)

end
